theory Spec2Isabelle
  imports Main "HOL-Library.Char_ord" "HOL-Library.List_Lexorder"
begin

section \<open>Dates and times\<close>

text \<open>
  A \<^verbatim>\<open>datetime.datetime\<close> in UTC is the record of its civil fields, as in the
  Python library. Every instant the program handles is an aware UTC value:
  \<^verbatim>\<open>datetime.datetime.now(datetime.timezone.utc)\<close> and what \<^verbatim>\<open>parser.parse\<close> makes of
  GitHub's \<^verbatim>\<open>2023-05-01T10:00:00Z\<close> strings.
\<close>

record datetime =
  year :: int
  month :: int
  day :: int
  hour :: int
  minute :: int
  second :: int
  microsecond :: int

definition is_leap :: "int \<Rightarrow> bool" where
  "is_leap y = (y mod 4 = 0 \<and> (y mod 100 \<noteq> 0 \<or> y mod 400 = 0))"

definition days_before_year :: "int \<Rightarrow> int" where
  "days_before_year y = (y - 1) * 365 + (y - 1) div 4 - (y - 1) div 100 + (y - 1) div 400"

definition DAYS_IN_MONTH :: "int \<Rightarrow> int" where
  "DAYS_IN_MONTH m =
     (if m = 2 then 28 else if m = 4 \<or> m = 6 \<or> m = 9 \<or> m = 11 then 30 else 31)"

definition DAYS_BEFORE_MONTH :: "int \<Rightarrow> int" where
  "DAYS_BEFORE_MONTH m =
     (if m = 1 then 0 else if m = 2 then 31 else if m = 3 then 59 else if m = 4 then 90
      else if m = 5 then 120 else if m = 6 then 151 else if m = 7 then 181
      else if m = 8 then 212 else if m = 9 then 243 else if m = 10 then 273
      else if m = 11 then 304 else 334)"

definition days_in_month :: "int \<Rightarrow> int \<Rightarrow> int" where
  "days_in_month y m = (if m = 2 \<and> is_leap y then 29 else DAYS_IN_MONTH m)"

definition days_before_month :: "int \<Rightarrow> int \<Rightarrow> int" where
  "days_before_month y m = DAYS_BEFORE_MONTH m + (if 2 < m \<and> is_leap y then 1 else 0)"

definition ymd2ord :: "int \<Rightarrow> int \<Rightarrow> int \<Rightarrow> int" where
  "ymd2ord y m d = days_before_year y + days_before_month y m + d"

text \<open>The whole seconds and the microseconds of a datetime, counted from the day before
  0001-01-01: what the library's subtraction and comparison of two UTC datetimes work on.\<close>

definition to_seconds :: "datetime \<Rightarrow> int" where
  "to_seconds t =
     ymd2ord (year t) (month t) (day t) * 86400 + hour t * 3600 + minute t * 60 + second t"

definition to_microseconds :: "datetime \<Rightarrow> int" where
  "to_microseconds t = to_seconds t * 1000000 + microsecond t"

text \<open>A \<^verbatim>\<open>datetime.timedelta\<close> is its length in microseconds; \<^verbatim>\<open>a - b\<close> on datetimes.\<close>

type_synonym timedelta = int

definition datetime_sub :: "datetime \<Rightarrow> datetime \<Rightarrow> timedelta" where
  "datetime_sub a b = to_microseconds a - to_microseconds b"

text \<open>The library's inverse of \<open>ymd2ord\<close>: the date of a day number.\<close>

definition ord2ymd :: "int \<Rightarrow> int \<times> int \<times> int" where
  "ord2ymd ordinal =
     (let n = ordinal - 1;
          n400 = n div 146097; na = n mod 146097;
          n100 = na div 36524; nb = na mod 36524;
          n4 = nb div 1461; nc = nb mod 1461;
          n1 = nc div 365; nd = nc mod 365;
          y = n400 * 400 + 1 + n100 * 100 + n4 * 4 + n1
      in if n1 = 4 \<or> n100 = 4 then (y - 1, 12, 31)
         else
           let leapyear = (n1 = 3 \<and> (n4 \<noteq> 24 \<or> n100 = 3));
               m = (nd + 50) div 32;
               preceding = DAYS_BEFORE_MONTH m + (if 2 < m \<and> leapyear then 1 else 0)
           in if nd < preceding
              then (y, m - 1,
                    nd - (preceding - (DAYS_IN_MONTH (m - 1)
                                        + (if m - 1 = 2 \<and> leapyear then 1 else 0))) + 1)
              else (y, m, nd - preceding + 1))"

text \<open>
  \<^verbatim>\<open>strftime('%Y-%m-%dT%H:%M:%SZ')\<close>: the month, day, hour, minute and second in two
  digits, padded with a zero, the microseconds dropped. \<^verbatim>\<open>%Y\<close> is left to the C library,
  and glibc prints the year in decimal without padding: four digits from 1000 to 9999,
  fewer below 1000.
\<close>

definition digit :: "int \<Rightarrow> char" where
  "digit d = char_of (48 + nat d)"

definition pad2 :: "int \<Rightarrow> string" where
  "pad2 n = [digit (n div 10 mod 10), digit (n mod 10)]"

function decimal :: "int \<Rightarrow> string" where
  "decimal n = (if n < 10 then [digit n] else decimal (n div 10) @ [digit (n mod 10)])"
  by pat_completeness auto
termination
  by (relation "measure nat") auto

declare decimal.simps [simp del]

definition strftime :: "datetime \<Rightarrow> string" where
  "strftime t =
     decimal (year t) @ ''-'' @ pad2 (month t) @ ''-'' @ pad2 (day t) @ ''T'' @
     pad2 (hour t) @ '':'' @ pad2 (minute t) @ '':'' @ pad2 (second t) @ ''Z''"

section \<open>Errors, the service state and the transport\<close>

datatype error =
    InvalidToken
  | NotInitialized
  | RequestException
  | HTTPError int
  | UnboundLocalError
  | TypeError
  | KeyError
  | OverflowError
  | CategoryMissing string
  | DiscussionNotFound string

text \<open>
  \<^verbatim>\<open>datetime.timedelta(hours=h)\<close> raises \<^verbatim>\<open>OverflowError\<close> when the normalised day count
  leaves \<open>\<plusminus>999999999\<close>.
\<close>

definition timedelta_hours :: "int \<Rightarrow> error + timedelta" where
  "timedelta_hours h =
     (if - 999999999 \<le> h div 24 \<and> h div 24 \<le> 999999999
      then Inr (h * 3600 * 1000000) else Inl OverflowError)"

definition timedelta_days :: "int \<Rightarrow> error + timedelta" where
  "timedelta_days d =
     (if - 999999999 \<le> d \<and> d \<le> 999999999
      then Inr (d * 86400 * 1000000) else Inl OverflowError)"

text \<open>
  \<^verbatim>\<open>a - delta\<close> on a datetime and a timedelta: the library adds on the time line and reads
  the fields back, and raises \<^verbatim>\<open>OverflowError\<close> outside the years 1 to 9999.
\<close>

definition datetime_minus :: "datetime \<Rightarrow> timedelta \<Rightarrow> error + datetime" where
  "datetime_minus t delta =
     (let us = to_microseconds t - delta;
          days = us div 86400000000;
          secs = us mod 86400000000 div 1000000
      in if 0 < days \<and> days \<le> 3652059
         then (case ord2ymd days of
                 (y, m, d) \<Rightarrow>
                   Inr \<lparr>year = y, month = m, day = d,
                        hour = secs div 3600, minute = secs mod 3600 div 60,
                        second = secs mod 60, microsecond = us mod 1000000\<rparr>)
         else Inl OverflowError)"

datatype request =
    GetPulls string string nat
  | GetTimeline string string int nat
  | PostCategories string string
  | PostDiscussions string string string
  | PostComments string string int
  | PostDeleteComment string
  | PostAddComment string string

text \<open>
  What \<^verbatim>\<open>requests.get\<close> and \<^verbatim>\<open>requests.post\<close> give back: they raise (a timeout, a
  refused connection), or they return a response with a status code and a body.
  The body stands for \<^verbatim>\<open>response.json()\<close>, typed by the shape the endpoint documents.
\<close>

datatype 'a response = NoResponse | Response int 'a

text \<open>\<^verbatim>\<open>response.raise_for_status()\<close> raises for the 4xx and 5xx codes.\<close>

definition raise_for_status :: "int \<Rightarrow> error + unit" where
  "raise_for_status status =
     (if 400 \<le> status \<and> status < 600 then Inl (HTTPError status) else Inr ())"

text \<open>
  A GraphQL body either has the member \<^verbatim>\<open>data\<close> with the nodes the query asks for, or
  it is a JSON object without it (GitHub's \<^verbatim>\<open>{"message": "Bad credentials"}\<close>), on which
  \<^verbatim>\<open>data['data']\<close> raises \<^verbatim>\<open>KeyError\<close>.
\<close>

datatype 'a body = Payload 'a | ErrorBody

record assignee_dict =
  login :: string
  created_at :: "datetime option"

record pr_dict =
  number :: int
  user_login :: string
  assignees_dicts :: "assignee_dict list"

text \<open>A timeline event; \<open>event_created_at\<close> is the datetime \<^verbatim>\<open>parser.parse\<close> reads
  from the event's \<^verbatim>\<open>created_at\<close>.\<close>

record event =
  event_kind :: string
  assignee_login :: string
  event_created_at :: datetime

record category = category_id :: string  category_name :: string

record discussion =
  discussion_id :: string
  discussion_title :: string
  discussion_number :: int

record comment =
  comment_id :: string
  createdAt :: string

text \<open>
  The world outside the process. A listing is asked for each of its pages once per loop,
  so a function of the request describes the server; \<open>clock n\<close> is what the
  \<open>n\<close>-th call of \<^verbatim>\<open>datetime.datetime.now\<close> in the run returns.
\<close>

record env =
  pulls :: "string \<Rightarrow> string \<Rightarrow> nat \<Rightarrow> pr_dict list response"
  timeline :: "string \<Rightarrow> string \<Rightarrow> int \<Rightarrow> nat \<Rightarrow> event list response"
  categories :: "string \<Rightarrow> string \<Rightarrow> category list body response"
  discussions :: "string \<Rightarrow> string \<Rightarrow> string \<Rightarrow> discussion list body response"
  comments :: "string \<Rightarrow> string \<Rightarrow> int \<Rightarrow> comment list body response"
  delete_comment :: "string \<Rightarrow> unit response"
  add_comment :: "string \<Rightarrow> string \<Rightarrow> unit response"
  clock :: "nat \<Rightarrow> datetime"

text \<open>The module's state: the global \<^verbatim>\<open>_TOKEN\<close>, the requests issued so far (oldest
  first) and the number of clock readings taken.\<close>

record service =
  TOKEN :: "string option"
  calls :: "request list"
  clock_reads :: nat

type_synonym 'a result = "service \<times> (error + 'a)"

definition issue :: "request \<Rightarrow> service \<Rightarrow> service" where
  "issue r s = s\<lparr>calls := calls s @ [r]\<rparr>"

definition now :: "env \<Rightarrow> service \<Rightarrow> datetime \<times> service" where
  "now e s = (clock e (clock_reads s), s\<lparr>clock_reads := Suc (clock_reads s)\<rparr>)"

definition init_service :: "string option \<Rightarrow> service \<Rightarrow> unit result" where
  "init_service token s =
     (if token = None \<or> token = Some []
      then (s, Inl InvalidToken)
      else (s\<lparr>TOKEN := token\<rparr>, Inr ()))"

text \<open>The decorator: the wrapped function runs only when \<^verbatim>\<open>_TOKEN\<close> is not \<^verbatim>\<open>None\<close>.\<close>

definition check_token :: "(service \<Rightarrow> 'a result option) \<Rightarrow> service \<Rightarrow> 'a result option" where
  "check_token func s =
     (if TOKEN s = None then Some (s, Inl NotInitialized) else func s)"

section \<open>The pull-request timeline\<close>

text \<open>
  The domain module \<^verbatim>\<open>github_domain\<close> is a collaborator of the service: the record of a
  pull request it builds, and the two operations the service calls on it.
\<close>

record assignee =
  username :: string
  assigned_on_timestamp :: "datetime option"

record pull_request =
  pr_number :: int
  author_username :: string
  assignees :: "assignee list"

record github_domain =
  from_github_response :: "pr_dict \<Rightarrow> error + pull_request"
  is_reviewer_assigned :: "pull_request \<Rightarrow> bool"

definition get_pull_request_dict_with_timestamp :: "pr_dict \<Rightarrow> event \<Rightarrow> pr_dict" where
  "get_pull_request_dict_with_timestamp pr ev =
     pr\<lparr>assignees_dicts :=
          map (\<lambda>a. if assignee_login ev = login a
                    then a\<lparr>created_at := Some (event_created_at ev)\<rparr> else a)
              (assignees_dicts pr)\<rparr>"

text \<open>
  The \<^verbatim>\<open>for event in timeline_subset\<close> loop. The helper mutates \<^verbatim>\<open>pr_dict\<close> and returns
  that same object, so \<^verbatim>\<open>updated_pr_dict\<close>, once bound, is \<^verbatim>\<open>pr_dict\<close> itself: the state
  is the dictionary and whether the name \<^verbatim>\<open>updated_pr_dict\<close> is bound.
\<close>

fun timeline_events :: "event list \<Rightarrow> pr_dict \<Rightarrow> bool \<Rightarrow> pr_dict \<times> bool" where
  "timeline_events [] pr bound = (pr, bound)"
| "timeline_events (ev # evs) pr bound =
     (if event_kind ev \<noteq> ''assigned'' then timeline_events evs pr bound
      else timeline_events evs (get_pull_request_dict_with_timestamp pr ev) True)"

partial_function (option) timeline_loop ::
  "env \<Rightarrow> string \<Rightarrow> string \<Rightarrow> nat \<Rightarrow> pr_dict \<Rightarrow> bool \<Rightarrow> service \<Rightarrow> (pr_dict \<times> bool) result option"
where
  "timeline_loop e org repo page_number pr bound s =
     (let s1 = issue (GetTimeline org repo (number pr) page_number) s in
      case timeline e org repo (number pr) page_number of
        NoResponse \<Rightarrow> Some (s1, Inl RequestException)
      | Response status timeline_subset \<Rightarrow>
          (case raise_for_status status of
             Inl err \<Rightarrow> Some (s1, Inl err)
           | Inr _ \<Rightarrow>
               if length timeline_subset = 0 then Some (s1, Inr (pr, bound))
               else (case timeline_events timeline_subset pr bound of
                       (pr', bound') \<Rightarrow>
                         timeline_loop e org repo (page_number + 1) pr' bound' s1)))"

definition get_pull_request_object_from_dict ::
  "env \<Rightarrow> github_domain \<Rightarrow> string \<Rightarrow> string \<Rightarrow> pr_dict \<Rightarrow> service \<Rightarrow> pull_request result option"
where
  "get_pull_request_object_from_dict e gd org repo pr =
     check_token (\<lambda>s.
       case timeline_loop e org repo 1 pr False s of
         None \<Rightarrow> None
       | Some (s', Inl err) \<Rightarrow> Some (s', Inl err)
       | Some (s', Inr (pr', bound)) \<Rightarrow>
           if bound then Some (s', from_github_response gd pr')
           else Some (s', Inl UnboundLocalError))"


section \<open>The overdue reviewers\<close>

text \<open>\<^verbatim>\<open>reviewer_to_assigned_prs\<close>, a \<^verbatim>\<open>defaultdict(list)\<close>: reading a missing key makes
  the empty list, which \<^verbatim>\<open>append\<close> then extends.\<close>

type_synonym overdue = "string \<rightharpoonup> pull_request list"

definition append_pr :: "string \<Rightarrow> pull_request \<Rightarrow> overdue \<Rightarrow> overdue" where
  "append_pr u pr d = d(u \<mapsto> (case d u of None \<Rightarrow> [] | Some prs \<Rightarrow> prs) @ [pr])"

text \<open>The \<^verbatim>\<open>for reviewer in pull_request.assignees\<close> loop. The subtraction comes first
  and raises \<^verbatim>\<open>TypeError\<close> on a timestamp that is \<^verbatim>\<open>None\<close>; the threshold is built only
  when the reviewer is not the author (\<^verbatim>\<open>and\<close> evaluates its right side on demand).\<close>

fun reviewers_loop ::
  "env \<Rightarrow> int \<Rightarrow> pull_request \<Rightarrow> assignee list \<Rightarrow> overdue \<Rightarrow> service \<Rightarrow> overdue result"
where
  "reviewers_loop e max_waiting_time_in_hours pr [] d s = (s, Inr d)"
| "reviewers_loop e max_waiting_time_in_hours pr (reviewer # rest) d s =
     (case now e s of
        (t, s1) \<Rightarrow>
          (case assigned_on_timestamp reviewer of
             None \<Rightarrow> (s1, Inl TypeError)
           | Some ts \<Rightarrow>
               let pending_review_time = datetime_sub t ts in
               if username reviewer \<noteq> author_username pr then
                 (case timedelta_hours max_waiting_time_in_hours of
                    Inl err \<Rightarrow> (s1, Inl err)
                  | Inr limit \<Rightarrow>
                      if limit \<le> pending_review_time
                      then reviewers_loop e max_waiting_time_in_hours pr rest
                             (append_pr (username reviewer) pr d) s1
                      else reviewers_loop e max_waiting_time_in_hours pr rest d s1)
               else reviewers_loop e max_waiting_time_in_hours pr rest d s1))"

fun pull_requests_loop ::
  "env \<Rightarrow> github_domain \<Rightarrow> int \<Rightarrow> pull_request list \<Rightarrow> overdue \<Rightarrow> service \<Rightarrow> overdue result"
where
  "pull_requests_loop e gd h [] d s = (s, Inr d)"
| "pull_requests_loop e gd h (pr # prs) d s =
     (if \<not> is_reviewer_assigned gd pr then pull_requests_loop e gd h prs d s
      else (case reviewers_loop e h pr (assignees pr) d s of
              (s1, Inl err) \<Rightarrow> (s1, Inl err)
            | (s1, Inr d1) \<Rightarrow> pull_requests_loop e gd h prs d1 s1))"

text \<open>The list comprehension over \<^verbatim>\<open>pr_subset\<close>.\<close>

fun pull_request_objects ::
  "env \<Rightarrow> github_domain \<Rightarrow> string \<Rightarrow> string \<Rightarrow> pr_dict list \<Rightarrow> service
     \<Rightarrow> pull_request list result option"
where
  "pull_request_objects e gd org repo [] s = Some (s, Inr [])"
| "pull_request_objects e gd org repo (pr # rest) s =
     (case get_pull_request_object_from_dict e gd org repo pr s of
        None \<Rightarrow> None
      | Some (s1, Inl err) \<Rightarrow> Some (s1, Inl err)
      | Some (s1, Inr obj) \<Rightarrow>
          (case pull_request_objects e gd org repo rest s1 of
             None \<Rightarrow> None
           | Some (s2, Inl err) \<Rightarrow> Some (s2, Inl err)
           | Some (s2, Inr objs) \<Rightarrow> Some (s2, Inr (obj # objs))))"

partial_function (option) pulls_loop ::
  "env \<Rightarrow> github_domain \<Rightarrow> string \<Rightarrow> string \<Rightarrow> int \<Rightarrow> nat \<Rightarrow> overdue \<Rightarrow> service
     \<Rightarrow> overdue result option"
where
  "pulls_loop e gd org repo h page_number d s =
     (let s1 = issue (GetPulls org repo page_number) s in
      case pulls e org repo page_number of
        NoResponse \<Rightarrow> Some (s1, Inl RequestException)
      | Response status pr_subset \<Rightarrow>
          (case raise_for_status status of
             Inl err \<Rightarrow> Some (s1, Inl err)
           | Inr _ \<Rightarrow>
               if length pr_subset = 0 then Some (s1, Inr d)
               else (case pull_request_objects e gd org repo pr_subset s1 of
                       None \<Rightarrow> None
                     | Some (s2, Inl err) \<Rightarrow> Some (s2, Inl err)
                     | Some (s2, Inr pull_requests) \<Rightarrow>
                         (case pull_requests_loop e gd h pull_requests d s2 of
                            (s3, Inl err) \<Rightarrow> Some (s3, Inl err)
                          | (s3, Inr d') \<Rightarrow>
                              pulls_loop e gd org repo h (page_number + 1) d' s3))))"

definition get_prs_assigned_to_reviewers ::
  "env \<Rightarrow> github_domain \<Rightarrow> string \<Rightarrow> string \<Rightarrow> int \<Rightarrow> service \<Rightarrow> overdue result option"
where
  "get_prs_assigned_to_reviewers e gd org_name repo_name max_waiting_time_in_hours =
     check_token (pulls_loop e gd org_name repo_name max_waiting_time_in_hours 1 Map.empty)"

section \<open>The discussion and its comments\<close>

fun find_category :: "string \<Rightarrow> category list \<Rightarrow> string option" where
  "find_category discussion_category [] = None"
| "find_category discussion_category (c # cs) =
     (if category_name c = discussion_category then Some (category_id c)
      else find_category discussion_category cs)"

fun find_discussion :: "string \<Rightarrow> discussion list \<Rightarrow> (string \<times> int) option" where
  "find_discussion title [] = None"
| "find_discussion title (x # xs) =
     (if discussion_title x = title then Some (discussion_id x, discussion_number x)
      else find_discussion title xs)"

text \<open>\<^verbatim>\<open>_get_discussion_data\<close>: neither response is passed to \<^verbatim>\<open>raise_for_status\<close>; the
  status code is not looked at.\<close>

definition get_discussion_data ::
  "env \<Rightarrow> string \<Rightarrow> string \<Rightarrow> string \<Rightarrow> string \<Rightarrow> service \<Rightarrow> (string \<times> int) result option"
where
  "get_discussion_data e org repo discussion_category title =
     check_token (\<lambda>s.
       let s1 = issue (PostCategories org repo) s in
       case categories e org repo of
         NoResponse \<Rightarrow> Some (s1, Inl RequestException)
       | Response status ErrorBody \<Rightarrow> Some (s1, Inl KeyError)
       | Response status (Payload discussion_categories) \<Rightarrow>
           (case find_category discussion_category discussion_categories of
              None \<Rightarrow> Some (s1, Inl (CategoryMissing discussion_category))
            | Some cid \<Rightarrow>
                let s2 = issue (PostDiscussions org repo cid) s1 in
                (case discussions e org repo cid of
                   NoResponse \<Rightarrow> Some (s2, Inl RequestException)
                 | Response status2 ErrorBody \<Rightarrow> Some (s2, Inl KeyError)
                 | Response status2 (Payload nodes) \<Rightarrow>
                     (case find_discussion title nodes of
                        None \<Rightarrow> Some (s2, Inl (DiscussionNotFound title))
                      | Some found \<Rightarrow> Some (s2, Inr found)))))"

definition DELETE_COMMENTS_BEFORE_IN_DAYS :: int where
  "DELETE_COMMENTS_BEFORE_IN_DAYS = 60"

definition get_past_time :: "env \<Rightarrow> int \<Rightarrow> service \<Rightarrow> string result" where
  "get_past_time e days s =
     (case now e s of
        (t, s1) \<Rightarrow>
          (case timedelta_days days of
             Inl err \<Rightarrow> (s1, Inl err)
           | Inr delta \<Rightarrow>
               (case datetime_minus t delta of
                  Inl err \<Rightarrow> (s1, Inl err)
                | Inr past \<Rightarrow> (s1, Inr (strftime past)))))"

text \<open>The \<^verbatim>\<open>for comment in discussion_comments\<close> loop with its \<^verbatim>\<open>break\<close>; \<open><\<close> on strings is
  Python's: code point by code point, a proper prefix being smaller.\<close>

fun old_comment_ids_loop :: "string \<Rightarrow> comment list \<Rightarrow> string list \<Rightarrow> string list" where
  "old_comment_ids_loop cutoff [] comment_ids = comment_ids"
| "old_comment_ids_loop cutoff (c # cs) comment_ids =
     (if createdAt c < cutoff
      then old_comment_ids_loop cutoff cs (comment_ids @ [comment_id c])
      else comment_ids)"

definition get_old_comment_ids ::
  "env \<Rightarrow> string \<Rightarrow> string \<Rightarrow> int \<Rightarrow> service \<Rightarrow> string list result"
where
  "get_old_comment_ids e org repo discussion_no s =
     (let s1 = issue (PostComments org repo discussion_no) s in
      case comments e org repo discussion_no of
        NoResponse \<Rightarrow> (s1, Inl RequestException)
      | Response status data \<Rightarrow>
          (case raise_for_status status of
             Inl err \<Rightarrow> (s1, Inl err)
           | Inr _ \<Rightarrow>
               (case data of
                  ErrorBody \<Rightarrow> (s1, Inl KeyError)
                | Payload discussion_comments \<Rightarrow>
                    (case get_past_time e DELETE_COMMENTS_BEFORE_IN_DAYS s1 of
                       (s2, Inl err) \<Rightarrow> (s2, Inl err)
                     | (s2, Inr delete_comments_before) \<Rightarrow>
                         (s2, Inr (old_comment_ids_loop delete_comments_before
                                     discussion_comments []))))))"

definition delete_comment_by_id :: "env \<Rightarrow> string \<Rightarrow> service \<Rightarrow> unit result" where
  "delete_comment_by_id e cid s =
     (let s1 = issue (PostDeleteComment cid) s in
      case delete_comment e cid of
        NoResponse \<Rightarrow> (s1, Inl RequestException)
      | Response status _ \<Rightarrow> (s1, raise_for_status status))"

definition post_comment :: "env \<Rightarrow> string \<Rightarrow> string \<Rightarrow> service \<Rightarrow> unit result" where
  "post_comment e did message s =
     (let s1 = issue (PostAddComment did message) s in
      case add_comment e did message of
        NoResponse \<Rightarrow> (s1, Inl RequestException)
      | Response status _ \<Rightarrow> (s1, raise_for_status status))"

fun delete_comments_loop :: "env \<Rightarrow> string list \<Rightarrow> service \<Rightarrow> unit result" where
  "delete_comments_loop e [] s = (s, Inr ())"
| "delete_comments_loop e (cid # cids) s =
     (case delete_comment_by_id e cid s of
        (s1, Inl err) \<Rightarrow> (s1, Inl err)
      | (s1, Inr _) \<Rightarrow> delete_comments_loop e cids s1)"

definition delete_discussion_comments ::
  "env \<Rightarrow> string \<Rightarrow> string \<Rightarrow> string \<Rightarrow> string \<Rightarrow> service \<Rightarrow> unit result option"
where
  "delete_discussion_comments e org repo discussion_category title =
     check_token (\<lambda>s.
       case get_discussion_data e org repo discussion_category title s of
         None \<Rightarrow> None
       | Some (s1, Inl err) \<Rightarrow> Some (s1, Inl err)
       | Some (s1, Inr (_, discussion_no)) \<Rightarrow>
           (case get_old_comment_ids e org repo discussion_no s1 of
              (s2, Inl err) \<Rightarrow> Some (s2, Inl err)
            | (s2, Inr comment_ids) \<Rightarrow> Some (delete_comments_loop e comment_ids s2)))"

definition add_discussion_comments ::
  "env \<Rightarrow> string \<Rightarrow> string \<Rightarrow> string \<Rightarrow> string \<Rightarrow> string \<Rightarrow> service \<Rightarrow> unit result option"
where
  "add_discussion_comments e org repo discussion_category title message =
     check_token (\<lambda>s.
       case get_discussion_data e org repo discussion_category title s of
         None \<Rightarrow> None
       | Some (s1, Inl err) \<Rightarrow> Some (s1, Inl err)
       | Some (s1, Inr (did, _)) \<Rightarrow> Some (post_comment e did message s1))"

section \<open>Notions the properties are stated with\<close>

subsection \<open>Pages and runs of a paginated fetch\<close>

text \<open>The items of a page, and whether the page came back without a raise.\<close>

fun page_items :: "'a list response \<Rightarrow> 'a list" where
  "page_items NoResponse = []"
| "page_items (Response status items) = items"

fun page_ok :: "'a response \<Rightarrow> bool" where
  "page_ok NoResponse = False"
| "page_ok (Response status items) = (raise_for_status status = Inr ())"

text \<open>What the pages \<open>page\<close>, ..., \<open>k - 1\<close> hold, in arrival order; and a run of the loop
  that starts at \<open>page\<close> and meets its first empty page at \<open>k\<close>.\<close>

definition fetched :: "(nat \<Rightarrow> 'a list response) \<Rightarrow> nat \<Rightarrow> nat \<Rightarrow> 'a list" where
  "fetched pages page k = concat (map (\<lambda>p. page_items (pages p)) [page..<k])"

definition stops_at :: "(nat \<Rightarrow> 'a list response) \<Rightarrow> nat \<Rightarrow> nat \<Rightarrow> bool" where
  "stops_at pages page k =
     (page \<le> k \<and> page_ok (pages k) \<and> page_items (pages k) = [] \<and>
      (\<forall>p \<in> set [page..<k]. page_ok (pages p) \<and> page_items (pages p) \<noteq> []))"

subsection \<open>Reconciliation\<close>

text \<open>The events that count, those that name one reviewer, and the dictionary in which
  every assignee carries the time of the last event naming them.\<close>

definition assigned_events :: "event list \<Rightarrow> event list" where
  "assigned_events evs = filter (\<lambda>ev. event_kind ev = ''assigned'') evs"

definition events_for :: "string \<Rightarrow> event list \<Rightarrow> event list" where
  "events_for l evs = filter (\<lambda>ev. event_kind ev = ''assigned'' \<and> assignee_login ev = l) evs"

definition stamp :: "event list \<Rightarrow> assignee_dict \<Rightarrow> assignee_dict" where
  "stamp evs a =
     (if events_for (login a) evs = [] then a
      else a\<lparr>created_at := Some (event_created_at (last (events_for (login a) evs)))\<rparr>)"

definition reconciled :: "event list \<Rightarrow> pr_dict \<Rightarrow> pr_dict" where
  "reconciled evs pr = pr\<lparr>assignees_dicts := map (stamp evs) (assignees_dicts pr)\<rparr>"

text \<open>Modelled from the spec: \<^verbatim>\<open>github_domain.PullRequest\<close> (its \<^verbatim>\<open>from_github_response\<close> and
  \<^verbatim>\<open>is_reviewer_assigned\<close>) is not among the sources. The record has the number, the
  author and the reviewer assignments, an assignment the reviewer and the timestamp the
  timeline gave (none when no event named the reviewer); a reviewer is assigned when the
  list of assignments is not empty. Used for the examples only: the theorems hold for
  every \<open>github_domain\<close>.\<close>

definition spec_domain :: github_domain where
  "spec_domain =
     \<lparr>from_github_response = (\<lambda>d. Inr
         \<lparr>pr_number = number d, author_username = user_login d,
          assignees = map (\<lambda>a. \<lparr>username = login a, assigned_on_timestamp = created_at a\<rparr>)
                          (assignees_dicts d)\<rparr>),
      is_reviewer_assigned = (\<lambda>p. assignees p \<noteq> [])\<rparr>"

subsection \<open>Example data\<close>

definition utc :: "int \<Rightarrow> int \<Rightarrow> int \<Rightarrow> int \<Rightarrow> int \<Rightarrow> int \<Rightarrow> datetime" where
  "utc y mo d h mi sec =
     \<lparr>year = y, month = mo, day = d, hour = h, minute = mi, second = sec, microsecond = 0\<rparr>"

definition quiet_env :: env where
  "quiet_env =
     \<lparr>pulls = (\<lambda>org repo page. Response 200 []),
      timeline = (\<lambda>org repo n page. Response 200 []),
      categories = (\<lambda>org repo. Response 200 (Payload [])),
      discussions = (\<lambda>org repo cid. Response 200 (Payload [])),
      comments = (\<lambda>org repo n. Response 200 (Payload [])),
      delete_comment = (\<lambda>cid. Response 200 ()),
      add_comment = (\<lambda>did message. Response 200 ()),
      clock = (\<lambda>n. utc 2023 5 1 13 0 0)\<rparr>"

definition ready :: service where
  "ready = \<lparr>TOKEN = Some ''ghp_token'', calls = [], clock_reads = 0\<rparr>"

definition fresh :: service where
  "fresh = \<lparr>TOKEN = None, calls = [], clock_reads = 0\<rparr>"

definition pr42 :: pr_dict where
  "pr42 = \<lparr>number = 42, user_login = ''alice'',
           assignees_dicts = [\<lparr>login = ''bob'', created_at = None\<rparr>]\<rparr>"

definition timeline42 :: "nat \<Rightarrow> event list response" where
  "timeline42 page =
     (if page = 1 then Response 200
        [\<lparr>event_kind = ''assigned'', assignee_login = ''bob'',
          event_created_at = utc 2023 5 1 10 0 0\<rparr>,
         \<lparr>event_kind = ''unassigned'', assignee_login = ''bob'',
          event_created_at = utc 2023 5 1 11 0 0\<rparr>,
         \<lparr>event_kind = ''assigned'', assignee_login = ''bob'',
          event_created_at = utc 2023 5 1 12 0 0\<rparr>]
      else Response 200 [])"

definition env42 :: env where
  "env42 = quiet_env\<lparr>timeline := (\<lambda>org repo n. timeline42)\<rparr>"

definition env_bad_status :: env where
  "env_bad_status = quiet_env
     \<lparr>categories := (\<lambda>org repo. Response 500
         (Payload [\<lparr>category_id = ''DIC_1'', category_name = ''Reviews''\<rparr>])),
      discussions := (\<lambda>org repo cid. Response 502
         (Payload [\<lparr>discussion_id = ''D_1'', discussion_title = ''Pending reviews'',
                    discussion_number = 7\<rparr>]))\<rparr>"

subsection \<open>Properties of the overdue mapping\<close>

text \<open>No reviewer is listed for a pull request of their own; no key holds an empty list; and a
  property that every append the scan can make preserves.\<close>

definition no_self_review :: "overdue \<Rightarrow> bool" where
  "no_self_review d = (\<forall>u prs. d u = Some prs \<longrightarrow> (\<forall>pr \<in> set prs. author_username pr \<noteq> u))"

definition no_empty_list :: "overdue \<Rightarrow> bool" where
  "no_empty_list d = (\<forall>u. d u \<noteq> Some [])"

definition append_closed :: "(overdue \<Rightarrow> bool) \<Rightarrow> bool" where
  "append_closed P = (\<forall>u pr d. P d \<and> u \<noteq> author_username pr \<longrightarrow> P (append_pr u pr d))"

subsection \<open>A run with one pull request\<close>

text \<open>Pull request 43 by alice, with alice and bob as reviewers, bob assigned at 12:00; the
  clock reads 13:00 and the threshold is one hour. \<open>ready43\<close> is the state after the run.\<close>

definition pr43 :: pr_dict where
  "pr43 = \<lparr>number = 43, user_login = ''alice'',
           assignees_dicts = [\<lparr>login = ''alice'', created_at = None\<rparr>,
                              \<lparr>login = ''bob'', created_at = None\<rparr>]\<rparr>"

definition timeline43 :: "nat \<Rightarrow> event list response" where
  "timeline43 page =
     (if page = 1 then Response 200
        [\<lparr>event_kind = ''assigned'', assignee_login = ''alice'',
          event_created_at = utc 2023 5 1 10 0 0\<rparr>,
         \<lparr>event_kind = ''assigned'', assignee_login = ''bob'',
          event_created_at = utc 2023 5 1 12 0 0\<rparr>]
      else Response 200 [])"

definition env43 :: env where
  "env43 = quiet_env
     \<lparr>pulls := (\<lambda>org repo page. if page = 1 then Response 200 [pr43] else Response 200 []),
      timeline := (\<lambda>org repo n. timeline43)\<rparr>"

definition pull_request43 :: pull_request where
  "pull_request43 =
     \<lparr>pr_number = 43, author_username = ''alice'',
      assignees = [\<lparr>username = ''alice'', assigned_on_timestamp = Some (utc 2023 5 1 10 0 0)\<rparr>,
                   \<lparr>username = ''bob'', assigned_on_timestamp = Some (utc 2023 5 1 12 0 0)\<rparr>]\<rparr>"

definition ready43 :: service where
  "ready43 = \<lparr>TOKEN = Some ''ghp_token'',
              calls = [GetPulls ''oppia'' ''oppia'' 1, GetTimeline ''oppia'' ''oppia'' 43 1,
                       GetTimeline ''oppia'' ''oppia'' 43 2, GetPulls ''oppia'' ''oppia'' 2],
              clock_reads = 2\<rparr>"

subsection \<open>What a scan should add\<close>





subsection \<open>Rendered timestamps and the reference filter\<close>

text \<open>The values \<^verbatim>\<open>datetime.datetime\<close> admits: the checks of its constructor. A year of
  four digits is one from 1000 on.\<close>

definition valid_datetime :: "datetime \<Rightarrow> bool" where
  "valid_datetime t =
     (1 \<le> year t \<and> year t \<le> 9999 \<and> 1 \<le> month t \<and> month t \<le> 12 \<and>
      1 \<le> day t \<and> day t \<le> days_in_month (year t) (month t) \<and>
      0 \<le> hour t \<and> hour t < 24 \<and> 0 \<le> minute t \<and> minute t < 60 \<and>
      0 \<le> second t \<and> second t < 60 \<and> 0 \<le> microsecond t \<and> microsecond t < 1000000)"

definition four_digit_year :: "datetime \<Rightarrow> bool" where
  "four_digit_year t = (1000 \<le> year t)"

text \<open>The order of two datetimes field by field, down to the second, and the length of a
  year in days; both are used in the proofs only.\<close>

definition civil_less :: "datetime \<Rightarrow> datetime \<Rightarrow> bool" where
  "civil_less a b =
     (year a < year b \<or> year a = year b \<and>
      (month a < month b \<or> month a = month b \<and>
      (day a < day b \<or> day a = day b \<and>
      (hour a < hour b \<or> hour a = hour b \<and>
      (minute a < minute b \<or> minute a = minute b \<and> second a < second b)))))"

definition year_length :: "int \<Rightarrow> int" where
  "year_length y = (if is_leap y then 366 else 365)"

text \<open>Modelled from the spec: the chronological comparison of the instants two rendered
  timestamps denote, in whole seconds since the format drops the microseconds, and the
  reference filter, the loop of \<^verbatim>\<open>_get_old_comment_ids\<close> run on datetimes with that
  comparison. A comment given by its id and its creation time is \<open>rendered\<close> as GitHub sends
  it, the time in the format \<^verbatim>\<open>%Y-%m-%dT%H:%M:%SZ\<close>.\<close>

definition earlier :: "datetime \<Rightarrow> datetime \<Rightarrow> bool" where
  "earlier a b = (to_seconds a < to_seconds b)"

fun reference_old_comment_ids ::
  "datetime \<Rightarrow> (string \<times> datetime) list \<Rightarrow> string list \<Rightarrow> string list"
where
  "reference_old_comment_ids cutoff [] comment_ids = comment_ids"
| "reference_old_comment_ids cutoff (c # cs) comment_ids =
     (if earlier (snd c) cutoff
      then reference_old_comment_ids cutoff cs (comment_ids @ [fst c])
      else comment_ids)"

definition rendered :: "string \<times> datetime \<Rightarrow> comment" where
  "rendered c = \<lparr>comment_id = fst c, createdAt = strftime (snd c)\<rparr>"

text \<open>The retention period as a \<^verbatim>\<open>timedelta\<close>:
  \<^verbatim>\<open>datetime.timedelta(days=DELETE_COMMENTS_BEFORE_IN_DAYS)\<close>.\<close>

definition retention :: timedelta where
  "retention = DELETE_COMMENTS_BEFORE_IN_DAYS * 86400 * 1000000"

subsection \<open>A discussion with four comments\<close>

text \<open>The clock reads 2023-05-01 13:00:00, so the cutoff is 2023-03-02 13:00:00: the first
  two comments are older, the second by one second, the third was created in the second of
  the cutoff, and the fourth, eighty days old, comes after it. In \<open>env_half_second\<close> the
  clock reads half a second later and the only comment was created in the second of the
  cutoff.\<close>

definition comments60 :: "(string \<times> datetime) list" where
  "comments60 =
     [(''c1'', utc 2023 2 20 8 0 0), (''c2'', utc 2023 3 2 12 59 59),
      (''c3'', utc 2023 3 2 13 0 0), (''c4'', utc 2023 2 10 8 0 0)]"

definition env60 :: env where
  "env60 = quiet_env\<lparr>comments := (\<lambda>org repo n. Response 200 (Payload (map rendered comments60)))\<rparr>"

definition env_half_second :: env where
  "env_half_second = quiet_env
     \<lparr>comments := (\<lambda>org repo n. Response 200
         (Payload [\<lparr>comment_id = ''c1'', createdAt = ''2023-03-02T13:00:00Z''\<rparr>])),
      clock := (\<lambda>n. (utc 2023 5 1 13 0 0)\<lparr>microsecond := 500000\<rparr>)\<rparr>"

section \<open>The timeline loop\<close>

lemma stamp_nil: "stamp [] a = a"
  by (simp add: stamp_def events_for_def)

lemma login_stamp: "login (stamp evs a) = login a"
  by (simp add: stamp_def)

lemma stamp_snoc:
  "stamp (evs @ [ev]) a =
     (if event_kind ev = ''assigned'' \<and> assignee_login ev = login a
      then (stamp evs a)\<lparr>created_at := Some (event_created_at ev)\<rparr> else stamp evs a)"
  by (simp add: stamp_def events_for_def)

lemma reconciled_nil: "reconciled [] pr = pr"
proof -
  have "map (stamp []) (assignees_dicts pr) = assignees_dicts pr"
    by (induction "assignees_dicts pr") (simp_all add: stamp_nil map_idI)
  then show ?thesis by (simp add: reconciled_def)
qed

lemma reconciled_snoc_assigned:
  "event_kind ev = ''assigned'' \<Longrightarrow>
   get_pull_request_dict_with_timestamp (reconciled evs pr) ev = reconciled (evs @ [ev]) pr"
  by (simp add: reconciled_def get_pull_request_dict_with_timestamp_def stamp_snoc login_stamp)

lemma reconciled_snoc_other:
  "event_kind ev \<noteq> ''assigned'' \<Longrightarrow> reconciled (evs @ [ev]) pr = reconciled evs pr"
  by (simp add: reconciled_def stamp_snoc)

lemma timeline_events_reconciled:
  "timeline_events evs (reconciled seen pr) bound =
     (reconciled (seen @ evs) pr, bound \<or> assigned_events evs \<noteq> [])"
proof (induction evs arbitrary: seen bound)
  case Nil
  show ?case by (simp add: assigned_events_def)
next
  case (Cons ev evs)
  show ?case
  proof (cases "event_kind ev = ''assigned''")
    case True
    then show ?thesis
      using Cons.IH [of "seen @ [ev]" True]
      by (simp add: reconciled_snoc_assigned assigned_events_def)
  next
    case False
    then show ?thesis
      using Cons.IH [of "seen @ [ev]" bound]
      by (simp add: reconciled_snoc_other assigned_events_def)
  qed
qed

lemma number_reconciled: "number (reconciled evs pr) = number pr"
  by (simp add: reconciled_def)

lemma stops_at_same:
  "stops_at pages k k \<Longrightarrow> \<exists>status. pages k = Response status [] \<and> raise_for_status status = Inr ()"
  by (cases "pages k") (auto simp: stops_at_def)

lemma stops_at_less:
  assumes "stops_at pages page k" "page < k"
  shows "\<exists>status items. pages page = Response status items \<and> raise_for_status status = Inr ()
           \<and> items \<noteq> [] \<and> stops_at pages (Suc page) k"
proof -
  from assms have "page_ok (pages page) \<and> page_items (pages page) \<noteq> []"
    by (simp add: stops_at_def)
  moreover from assms have "stops_at pages (Suc page) k"
    by (simp add: stops_at_def)
  ultimately show ?thesis
    by (cases "pages page") auto
qed

lemma fetched_same: "fetched pages k k = []"
  by (simp add: fetched_def)

lemma fetched_step:
  "page < k \<Longrightarrow> fetched pages page k = page_items (pages page) @ fetched pages (Suc page) k"
  by (simp add: fetched_def upt_conv_Cons)

lemma assigned_events_append:
  "assigned_events (xs @ ys) = assigned_events xs @ assigned_events ys"
  by (simp add: assigned_events_def)

lemma timeline_loop_run:
  assumes "stops_at (timeline e org repo (number pr)) page k"
  shows "timeline_loop e org repo page (reconciled seen pr) bound s =
     Some (s\<lparr>calls := calls s @ map (GetTimeline org repo (number pr)) [page..<Suc k]\<rparr>,
           Inr (reconciled (seen @ fetched (timeline e org repo (number pr)) page k) pr,
                bound \<or> assigned_events (fetched (timeline e org repo (number pr)) page k) \<noteq> []))"
  using assms
proof (induction "k - page" arbitrary: page seen bound s)
  case 0
  then have "page = k" by (simp add: stops_at_def)
  with 0 obtain status where
    "timeline e org repo (number pr) k = Response status []" "raise_for_status status = Inr ()"
    using stops_at_same by blast
  with \<open>page = k\<close> show ?case
    by (subst timeline_loop.simps)
       (simp add: number_reconciled fetched_same assigned_events_def issue_def)
next
  case (Suc d)
  then have lt: "page < k" by simp
  with Suc.prems obtain status items where
    resp: "timeline e org repo (number pr) page = Response status items"
      "raise_for_status status = Inr ()" "items \<noteq> []"
    and rest: "stops_at (timeline e org repo (number pr)) (Suc page) k"
    using stops_at_less by blast
  from Suc.hyps(2) have d: "d = k - Suc page" by simp
  have upt: "[page..<Suc k] = page # [Suc page..<Suc k]"
    using lt by (simp add: upt_conv_Cons)
  have fs: "fetched (timeline e org repo (number pr)) page k =
      items @ fetched (timeline e org repo (number pr)) (Suc page) k"
    using lt resp(1) by (simp add: fetched_step)
  have ae: "assigned_events items = [] \<longleftrightarrow> \<not> (\<exists>ev \<in> set items. event_kind ev = ''assigned'')"
    by (auto simp: assigned_events_def filter_empty_conv)
  show ?case
    apply (subst timeline_loop.simps)
    apply (simp add: number_reconciled resp timeline_events_reconciled
        Suc.hyps(1) [OF d rest] issue_def upt fs assigned_events_append del: upt_Suc)
    done
qed

lemma get_pull_request_object_run:
  assumes tok: "TOKEN s \<noteq> None"
    and run: "stops_at (timeline e org repo (number pr)) 1 k"
  shows "get_pull_request_object_from_dict e gd org repo pr s =
     Some (s\<lparr>calls := calls s @ map (GetTimeline org repo (number pr)) [1..<Suc k]\<rparr>,
           if assigned_events (fetched (timeline e org repo (number pr)) 1 k) \<noteq> []
           then from_github_response gd (reconciled (fetched (timeline e org repo (number pr)) 1 k) pr)
           else Inl UnboundLocalError)"
proof -
  have loop: "timeline_loop e org repo 1 pr False s =
     Some (s\<lparr>calls := calls s @ map (GetTimeline org repo (number pr)) [1..<Suc k]\<rparr>,
           Inr (reconciled (fetched (timeline e org repo (number pr)) 1 k) pr,
                assigned_events (fetched (timeline e org repo (number pr)) 1 k) \<noteq> []))"
    using timeline_loop_run [OF run, of "[]" False s] by (simp add: reconciled_nil del: upt_Suc)
  from tok show ?thesis
    unfolding get_pull_request_object_from_dict_def check_token_def loop
    by (auto simp del: upt_Suc)
qed

lemma events_for_assigned:
  "events_for l evs \<noteq> [] \<Longrightarrow> assigned_events evs \<noteq> []"
  by (auto simp: events_for_def assigned_events_def filter_empty_conv)

section \<open>Reconciled timestamps\<close>

text \<open>
  Claim C1. When the timeline of a pull request holds more than one \<^verbatim>\<open>assigned\<close> event for
  a reviewer, the timestamp the reconciliation stores for that reviewer is the creation
  time of the last of those events in the order the pages arrive, and not the first one's
  when the two differ. The run fetches the pages 1 to \<open>k\<close>, the first empty one, without
  a transport error, and hands the reconciled dictionary to \<^verbatim>\<open>from_github_response\<close>.
\<close>

theorem last_assigned_event_wins:
  assumes tok: "TOKEN s \<noteq> None"
    and run: "stops_at (timeline e org repo (number pr)) 1 k"
    and i: "i < length (assignees_dicts pr)"
    and m: "matching = events_for (login (assignees_dicts pr ! i))
                         (fetched (timeline e org repo (number pr)) 1 k)"
    and more: "1 < length matching"
  shows "\<exists>s' pr'. get_pull_request_object_from_dict e gd org repo pr s =
            Some (s', from_github_response gd pr')
          \<and> number pr' = number pr \<and> user_login pr' = user_login pr
          \<and> map login (assignees_dicts pr') = map login (assignees_dicts pr)
          \<and> created_at (assignees_dicts pr' ! i) = Some (event_created_at (last matching))
          \<and> (event_created_at (hd matching) \<noteq> event_created_at (last matching) \<longrightarrow>
               created_at (assignees_dicts pr' ! i) \<noteq> Some (event_created_at (hd matching)))"
proof -
  let ?evs = "fetched (timeline e org repo (number pr)) 1 k"
  let ?pr' = "reconciled ?evs pr"
  from more m have ne: "events_for (login (assignees_dicts pr ! i)) ?evs \<noteq> []" by auto
  then have "assigned_events ?evs \<noteq> []" by (rule events_for_assigned)
  then have "get_pull_request_object_from_dict e gd org repo pr s =
     Some (s\<lparr>calls := calls s @ map (GetTimeline org repo (number pr)) [1..<Suc k]\<rparr>,
           from_github_response gd ?pr')"
    using get_pull_request_object_run [OF tok run, of gd] by simp
  moreover have "number ?pr' = number pr" "user_login ?pr' = user_login pr"
    by (simp_all add: reconciled_def)
  moreover have "map login (assignees_dicts ?pr') = map login (assignees_dicts pr)"
    by (simp add: reconciled_def login_stamp)
  moreover have "created_at (assignees_dicts ?pr' ! i) = Some (event_created_at (last matching))"
    using i ne m by (simp add: reconciled_def stamp_def)
  ultimately show ?thesis by auto
qed

theorem last_assigned_event_wins_witness:
  "\<exists>s' pr'. get_pull_request_object_from_dict env42 spec_domain ''oppia'' ''oppia'' pr42 ready =
       Some (s', from_github_response spec_domain pr')
     \<and> created_at (assignees_dicts pr' ! 0) = Some (utc 2023 5 1 12 0 0)
     \<and> created_at (assignees_dicts pr' ! 0) \<noteq> Some (utc 2023 5 1 10 0 0)"
proof -
  have tok: "TOKEN ready \<noteq> None" by (simp add: ready_def)
  have run: "stops_at (timeline env42 ''oppia'' ''oppia'' (number pr42)) 1 2"
    by (simp add: stops_at_def env42_def timeline42_def raise_for_status_def)
  have i: "0 < length (assignees_dicts pr42)" by (simp add: pr42_def)
  have m: "[\<lparr>event_kind = ''assigned'', assignee_login = ''bob'',
             event_created_at = utc 2023 5 1 10 0 0\<rparr>,
            \<lparr>event_kind = ''assigned'', assignee_login = ''bob'',
             event_created_at = utc 2023 5 1 12 0 0\<rparr>]
         = events_for (login (assignees_dicts pr42 ! 0))
             (fetched (timeline env42 ''oppia'' ''oppia'' (number pr42)) 1 2)"
    by (simp add: events_for_def fetched_def env42_def timeline42_def pr42_def numeral_2_eq_2)
  show ?thesis
    using last_assigned_event_wins [OF tok run i m, of spec_domain]
    by (auto simp: utc_def)
qed

text \<open>
  Claim C2. A pull request with reviewers whose timeline has no \<^verbatim>\<open>assigned\<close> event at
  all (an empty timeline included) should be reconciled without an error. It is not: the
  name \<^verbatim>\<open>updated_pr_dict\<close> is bound only by an \<^verbatim>\<open>assigned\<close> event, and the \<^verbatim>\<open>return\<close> of
  \<^verbatim>\<open>get_pull_request_object_from_dict\<close> raises \<^verbatim>\<open>UnboundLocalError\<close>, whatever the domain
  module does.
\<close>

theorem no_assigned_event_unbound:
  assumes tok: "TOKEN s \<noteq> None"
    and run: "stops_at (timeline e org repo (number pr)) 1 k"
    and none: "assigned_events (fetched (timeline e org repo (number pr)) 1 k) = []"
  shows "get_pull_request_object_from_dict e gd org repo pr s =
     Some (s\<lparr>calls := calls s @ map (GetTimeline org repo (number pr)) [1..<Suc k]\<rparr>,
           Inl UnboundLocalError)"
  using get_pull_request_object_run [OF tok run, of gd] none by simp

theorem no_assigned_event_unbound_witness:
  "get_pull_request_object_from_dict quiet_env spec_domain ''oppia'' ''oppia'' pr42 ready =
     Some (ready\<lparr>calls := [GetTimeline ''oppia'' ''oppia'' 42 1]\<rparr>, Inl UnboundLocalError)"
proof -
  have tok: "TOKEN ready \<noteq> None" by (simp add: ready_def)
  have run: "stops_at (timeline quiet_env ''oppia'' ''oppia'' (number pr42)) 1 1"
    by (simp add: stops_at_def quiet_env_def raise_for_status_def)
  have none: "assigned_events (fetched (timeline quiet_env ''oppia'' ''oppia'' (number pr42)) 1 1) = []"
    by (simp add: fetched_def assigned_events_def)
  show ?thesis
    using no_assigned_event_unbound [OF tok run none, of spec_domain]
    by (simp add: ready_def pr42_def)
qed

section \<open>The credential guard\<close>

text \<open>
  Claim C7. Every operation behind \<^verbatim>\<open>check_token\<close>, called while \<^verbatim>\<open>_TOKEN\<close> is \<^verbatim>\<open>None\<close>,
  fails at once with the "initialize the service" error and leaves the state as it was,
  so no request has been issued; and \<^verbatim>\<open>init_service\<close> rejects an absent or empty token
  with an error and leaves the service as it was, uninitialised.
\<close>

theorem uninitialized_service_fails:
  assumes "TOKEN s = None"
  shows "get_prs_assigned_to_reviewers e gd org repo h s = Some (s, Inl NotInitialized)
       \<and> get_pull_request_object_from_dict e gd org repo pr s = Some (s, Inl NotInitialized)
       \<and> get_discussion_data e org repo cat title s = Some (s, Inl NotInitialized)
       \<and> delete_discussion_comments e org repo cat title s = Some (s, Inl NotInitialized)
       \<and> add_discussion_comments e org repo cat title message s = Some (s, Inl NotInitialized)
       \<and> init_service None s = (s, Inl InvalidToken)
       \<and> init_service (Some []) s = (s, Inl InvalidToken)"
  using assms
  by (simp add: get_prs_assigned_to_reviewers_def get_pull_request_object_from_dict_def
      get_discussion_data_def delete_discussion_comments_def add_discussion_comments_def
      check_token_def init_service_def)

theorem uninitialized_service_fails_witness:
  "get_prs_assigned_to_reviewers quiet_env spec_domain ''oppia'' ''oppia'' 24 fresh
      = Some (fresh, Inl NotInitialized)
   \<and> calls fresh = []
   \<and> init_service (Some []) fresh = (fresh, Inl InvalidToken)
   \<and> TOKEN fresh = None"
proof -
  have "TOKEN fresh = None" by (simp add: fresh_def)
  from uninitialized_service_fails [OF this, of quiet_env spec_domain "''oppia''" "''oppia''" 24]
  show ?thesis by (simp add: fresh_def)
qed

section \<open>Pagination\<close>

text \<open>
  Claim C8. Both paginated loops stop as soon as a page with no items comes back, at
  whatever page number and with whatever they hold by then: the empty page's request is
  the last one issued. For the timeline, a run from \<open>page\<close> whose first empty page is
  \<open>k\<close> issues the requests for the pages \<open>page\<close> to \<open>k\<close> and no other, and returns.
\<close>

theorem empty_page_ends_pagination:
  "(page_ok (pulls e org repo page) \<and> page_items (pulls e org repo page) = [] \<longrightarrow>
      pulls_loop e gd org repo h page d s = Some (issue (GetPulls org repo page) s, Inr d))
   \<and> (page_ok (timeline e org repo (number pr) page)
        \<and> page_items (timeline e org repo (number pr) page) = [] \<longrightarrow>
      timeline_loop e org repo page pr bound s =
        Some (issue (GetTimeline org repo (number pr) page) s, Inr (pr, bound)))
   \<and> (stops_at (timeline e org repo (number pr)) page k \<longrightarrow>
      (\<exists>r. timeline_loop e org repo page pr bound s =
        Some (s\<lparr>calls := calls s @ map (GetTimeline org repo (number pr)) [page..<Suc k]\<rparr>,
              Inr r)))"
proof (intro conjI impI)
  assume a: "page_ok (pulls e org repo page) \<and> page_items (pulls e org repo page) = []"
  then obtain status where "pulls e org repo page = Response status []"
      "raise_for_status status = Inr ()"
    by (cases "pulls e org repo page") auto
  then show "pulls_loop e gd org repo h page d s = Some (issue (GetPulls org repo page) s, Inr d)"
    by (subst pulls_loop.simps) simp
next
  assume a: "page_ok (timeline e org repo (number pr) page)
        \<and> page_items (timeline e org repo (number pr) page) = []"
  then obtain status where "timeline e org repo (number pr) page = Response status []"
      "raise_for_status status = Inr ()"
    by (cases "timeline e org repo (number pr) page") auto
  then show "timeline_loop e org repo page pr bound s =
        Some (issue (GetTimeline org repo (number pr) page) s, Inr (pr, bound))"
    by (subst timeline_loop.simps) simp
next
  assume "stops_at (timeline e org repo (number pr)) page k"
  from timeline_loop_run [OF this, of "[]" bound s]
  show "\<exists>r. timeline_loop e org repo page pr bound s =
        Some (s\<lparr>calls := calls s @ map (GetTimeline org repo (number pr)) [page..<Suc k]\<rparr>,
              Inr r)"
    by (simp add: reconciled_nil del: upt_Suc)
qed

theorem empty_page_ends_pagination_witness:
  "pulls_loop quiet_env spec_domain ''oppia'' ''oppia'' 24 7 Map.empty ready =
     Some (ready\<lparr>calls := [GetPulls ''oppia'' ''oppia'' 7]\<rparr>, Inr Map.empty)
   \<and> timeline_loop quiet_env ''oppia'' ''oppia'' 5 pr42 False ready =
     Some (ready\<lparr>calls := [GetTimeline ''oppia'' ''oppia'' 42 5]\<rparr>, Inr (pr42, False))
   \<and> (\<exists>r. timeline_loop env42 ''oppia'' ''oppia'' 1 pr42 False ready =
     Some (ready\<lparr>calls := [GetTimeline ''oppia'' ''oppia'' 42 1, GetTimeline ''oppia'' ''oppia'' 42 2]\<rparr>,
           Inr r))"
proof -
  have run: "stops_at (timeline env42 ''oppia'' ''oppia'' (number pr42)) 1 2"
    by (simp add: stops_at_def env42_def timeline42_def raise_for_status_def)
  have p: "page_ok (pulls quiet_env ''oppia'' ''oppia'' 7)
       \<and> page_items (pulls quiet_env ''oppia'' ''oppia'' 7) = []"
    by (simp add: quiet_env_def raise_for_status_def)
  have t: "page_ok (timeline quiet_env ''oppia'' ''oppia'' (number pr42) 5)
       \<and> page_items (timeline quiet_env ''oppia'' ''oppia'' (number pr42) 5) = []"
    by (simp add: quiet_env_def raise_for_status_def)
  show ?thesis
    using empty_page_ends_pagination [where e = quiet_env and org = "''oppia''"
        and repo = "''oppia''" and page = 7 and gd = spec_domain and h = 24 and d = Map.empty
        and s = ready and pr = pr42 and bound = False and k = 7]
      empty_page_ends_pagination [where e = quiet_env and org = "''oppia''"
        and repo = "''oppia''" and page = 5 and gd = spec_domain and h = 24 and d = Map.empty
        and s = ready and pr = pr42 and bound = False and k = 5]
      empty_page_ends_pagination [where e = env42 and org = "''oppia''"
        and repo = "''oppia''" and page = 1 and gd = spec_domain and h = 24 and d = Map.empty
        and s = ready and pr = pr42 and bound = False and k = 2]
      run p t
    by (simp add: issue_def ready_def pr42_def numeral_2_eq_2)
qed

section \<open>Transport errors\<close>

lemma pulls_loop_http_error:
  "pulls e org repo page = Response status items \<Longrightarrow> raise_for_status status = Inl err \<Longrightarrow>
   pulls_loop e gd org repo h page d s = Some (issue (GetPulls org repo page) s, Inl err)"
  by (subst pulls_loop.simps) simp

lemma timeline_loop_http_error:
  "timeline e org repo (number pr) page = Response status items \<Longrightarrow>
   raise_for_status status = Inl err \<Longrightarrow>
   timeline_loop e org repo page pr bound s =
     Some (issue (GetTimeline org repo (number pr) page) s, Inl err)"
  by (subst timeline_loop.simps) simp

lemma get_old_comment_ids_http_error:
  "comments e org repo n = Response status data \<Longrightarrow> raise_for_status status = Inl err \<Longrightarrow>
   get_old_comment_ids e org repo n s = (issue (PostComments org repo n) s, Inl err)"
  by (simp add: get_old_comment_ids_def)

lemma delete_and_post_http_error:
  "delete_comment e cid = Response status u \<Longrightarrow> raise_for_status status = Inl err \<Longrightarrow>
   delete_comment_by_id e cid s = (issue (PostDeleteComment cid) s, Inl err)"
  "add_comment e did message = Response status u \<Longrightarrow> raise_for_status status = Inl err \<Longrightarrow>
   post_comment e did message s = (issue (PostAddComment did message) s, Inl err)"
  by (simp_all add: delete_comment_by_id_def post_comment_def)

text \<open>
  Claim C6. Every fetch should abort its operation on a response that is not a success.
  The two loops, the comment listing, the deletion and the posting do (the lemmas above):
  each passes its response to \<^verbatim>\<open>raise_for_status\<close>. The two lookups of
  \<^verbatim>\<open>_get_discussion_data\<close> do not: whatever the two status codes are, a body that holds the
  category and the discussion makes the lookup succeed.
\<close>

theorem discussion_lookup_ignores_status:
  assumes "TOKEN s \<noteq> None"
    and "categories e org repo = Response status1 (Payload cats)"
    and "find_category cat cats = Some cid"
    and "discussions e org repo cid = Response status2 (Payload nodes)"
    and "find_discussion title nodes = Some found"
  shows "get_discussion_data e org repo cat title s =
     Some (issue (PostDiscussions org repo cid) (issue (PostCategories org repo) s), Inr found)"
  using assms by (auto simp: get_discussion_data_def check_token_def)

theorem discussion_lookup_ignores_status_witness:
  "raise_for_status 500 = Inl (HTTPError 500) \<and> raise_for_status 502 = Inl (HTTPError 502)
   \<and> get_discussion_data env_bad_status ''oppia'' ''oppia'' ''Reviews'' ''Pending reviews'' ready =
     Some (ready\<lparr>calls := [PostCategories ''oppia'' ''oppia'',
                            PostDiscussions ''oppia'' ''oppia'' ''DIC_1'']\<rparr>,
           Inr (''D_1'', 7))"
proof -
  have tok: "TOKEN ready \<noteq> None" by (simp add: ready_def)
  show ?thesis
    using discussion_lookup_ignores_status [OF tok, of env_bad_status "''oppia''" "''oppia''" 500
        "[\<lparr>category_id = ''DIC_1'', category_name = ''Reviews''\<rparr>]" "''Reviews''" "''DIC_1''"
        502 "[\<lparr>discussion_id = ''D_1'', discussion_title = ''Pending reviews'',
                    discussion_number = 7\<rparr>]" "''Pending reviews''" "(''D_1'', 7)"]
    by (simp add: env_bad_status_def quiet_env_def issue_def ready_def raise_for_status_def)
qed

section \<open>The overdue scan\<close>

lemma append_closedD:
  "append_closed P \<Longrightarrow> P d \<Longrightarrow> u \<noteq> author_username pr \<Longrightarrow> P (append_pr u pr d)"
  by (simp add: append_closed_def)

lemma reviewers_loop_keeps:
  assumes "append_closed P"
  shows "P d \<Longrightarrow> reviewers_loop e h pr rs d s = (s', Inr d') \<Longrightarrow> P d'"
proof (induction rs arbitrary: d s)
  case Nil
  then show ?case by simp
next
  case (Cons r rs)
  from Cons.prems(2) show ?case
    by (auto simp: now_def Let_def split: option.splits if_splits sum.splits
        intro: Cons.IH Cons.prems(1) append_closedD [OF assms])
qed

lemma pull_requests_loop_keeps:
  assumes "append_closed P"
  shows "P d \<Longrightarrow> pull_requests_loop e gd h prs d s = (s', Inr d') \<Longrightarrow> P d'"
proof (induction prs arbitrary: d s)
  case Nil
  then show ?case by simp
next
  case (Cons pr prs)
  from Cons.prems(2) show ?case
    by (auto split: if_splits prod.splits sum.splits
        intro: Cons.IH Cons.prems(1) reviewers_loop_keeps [OF assms])
qed

lemma pulls_loop_keeps:
  assumes closed: "append_closed P"
    and run: "pulls_loop e gd org repo h page d s = Some y"
  shows "P d \<longrightarrow> (\<forall>s' d'. y = (s', Inr d') \<longrightarrow> P d')"
proof (rule pulls_loop.raw_induct
    [where P = "\<lambda>e gd org repo h page d s y. P d \<longrightarrow> (\<forall>s' d'. y = (s', Inr d') \<longrightarrow> P d')",
      OF _ run])
  fix loop e gd org repo h page d s y
  assume ih: "\<And>e gd org repo h page d s y.
      loop e gd org repo h page d s = Some y \<Longrightarrow>
      P d \<longrightarrow> (\<forall>s' d'. y = (s', Inr d') \<longrightarrow> P d')"
    and body: "(let s1 = issue (GetPulls org repo page) s in
      case pulls e org repo page of
        NoResponse \<Rightarrow> Some (s1, Inl RequestException)
      | Response status pr_subset \<Rightarrow>
          (case raise_for_status status of
             Inl err \<Rightarrow> Some (s1, Inl err)
           | Inr _ \<Rightarrow>
               if length pr_subset = 0 then Some (s1, Inr d)
               else (case pull_request_objects e gd org repo pr_subset s1 of
                       None \<Rightarrow> None
                     | Some (s2, Inl err) \<Rightarrow> Some (s2, Inl err)
                     | Some (s2, Inr pull_requests) \<Rightarrow>
                         (case pull_requests_loop e gd h pull_requests d s2 of
                            (s3, Inl err) \<Rightarrow> Some (s3, Inl err)
                          | (s3, Inr d') \<Rightarrow>
                              loop e gd org repo h (page + 1) d' s3)))) = Some y"
  show "P d \<longrightarrow> (\<forall>s' d'. y = (s', Inr d') \<longrightarrow> P d')"
  proof (intro impI allI)
    fix s' d'
    assume P: "P d" and y: "y = (s', Inr d')"
    from body y P show "P d'"
      by (auto simp: Let_def split: response.splits sum.splits if_splits option.splits prod.splits
          dest!: ih pull_requests_loop_keeps [OF closed, rotated])
  qed
qed

lemma closed_no_self_review: "append_closed no_self_review"
  unfolding append_closed_def no_self_review_def append_pr_def
  by (auto split: if_splits option.splits) metis+

lemma closed_no_empty_list: "append_closed no_empty_list"
  by (auto simp: append_closed_def no_empty_list_def append_pr_def)

lemma get_prs_keeps:
  assumes "append_closed P" "P Map.empty"
    and "get_prs_assigned_to_reviewers e gd org repo h s = Some (s', Inr d)"
  shows "P d"
proof -
  from assms(3) have "pulls_loop e gd org repo h 1 Map.empty s = Some (s', Inr d)"
    by (simp add: get_prs_assigned_to_reviewers_def check_token_def split: if_splits)
  from pulls_loop_keeps [OF assms(1) this] assms(2) show ?thesis by simp
qed

lemma pulls_loop_page:
  assumes "pulls e org repo page = Response status items" "raise_for_status status = Inr ()"
    and "items \<noteq> []"
    and "pull_request_objects e gd org repo items (issue (GetPulls org repo page) s)
           = Some (s2, Inr objs)"
    and "pull_requests_loop e gd h objs d s2 = (s3, Inr d')"
  shows "pulls_loop e gd org repo h page d s = pulls_loop e gd org repo h (Suc page) d' s3"
  by (subst pulls_loop.simps) (simp add: assms)

lemma to_microseconds_utc:
  "to_microseconds (utc 2023 5 1 h mi sec) = ((738641 * 24 + h) * 60 + mi) * 60000000 + sec * 1000000"
  by (simp add: to_microseconds_def to_seconds_def ymd2ord_def days_before_year_def
      days_before_month_def DAYS_BEFORE_MONTH_def is_leap_def utc_def)

lemma example43_objects:
  "pull_request_objects env43 spec_domain ''oppia'' ''oppia'' [pr43]
     (issue (GetPulls ''oppia'' ''oppia'' 1) ready)
   = Some (ready\<lparr>calls := [GetPulls ''oppia'' ''oppia'' 1, GetTimeline ''oppia'' ''oppia'' 43 1,
                       GetTimeline ''oppia'' ''oppia'' 43 2]\<rparr>, Inr [pull_request43])"
proof -
  let ?s = "issue (GetPulls ''oppia'' ''oppia'' 1) ready"
  have tok: "TOKEN ?s \<noteq> None" by (simp add: ready_def issue_def)
  have run: "stops_at (timeline env43 ''oppia'' ''oppia'' (number pr43)) 1 2"
    by (simp add: stops_at_def env43_def timeline43_def raise_for_status_def)
  show ?thesis
    using get_pull_request_object_run [OF tok run, of spec_domain]
    by (simp add: fetched_def env43_def timeline43_def pr43_def numeral_2_eq_2
        assigned_events_def reconciled_def stamp_def events_for_def spec_domain_def
        pull_request43_def issue_def ready_def)
qed

lemma example43_scan:
  "pull_requests_loop env43 spec_domain 1 [pull_request43] Map.empty s
   = (s\<lparr>clock_reads := Suc (Suc (clock_reads s))\<rparr>, Inr (append_pr ''bob'' pull_request43 Map.empty))"
  by (simp add: spec_domain_def pull_request43_def now_def env43_def quiet_env_def
      datetime_sub_def to_microseconds_utc timedelta_hours_def)

lemma example43:
  "get_prs_assigned_to_reviewers env43 spec_domain ''oppia'' ''oppia'' 1 ready =
     Some (ready43, Inr (append_pr ''bob'' pull_request43 Map.empty))"
proof -
  have p1: "pulls env43 ''oppia'' ''oppia'' 1 = Response 200 [pr43]"
    by (simp add: env43_def)
  have p2: "raise_for_status 200 = Inr ()" by (simp add: raise_for_status_def)
  have p3: "[pr43] \<noteq> []" by simp
  have "pulls_loop env43 spec_domain ''oppia'' ''oppia'' 1 1 Map.empty ready
      = pulls_loop env43 spec_domain ''oppia'' ''oppia'' 1 (Suc 1)
          (append_pr ''bob'' pull_request43 Map.empty)
          (ready\<lparr>calls := [GetPulls ''oppia'' ''oppia'' 1, GetTimeline ''oppia'' ''oppia'' 43 1,
                       GetTimeline ''oppia'' ''oppia'' 43 2]\<rparr>
             \<lparr>clock_reads := Suc (Suc (clock_reads
                (ready\<lparr>calls := [GetPulls ''oppia'' ''oppia'' 1,
                   GetTimeline ''oppia'' ''oppia'' 43 1,
                   GetTimeline ''oppia'' ''oppia'' 43 2]\<rparr>)))\<rparr>)"
    by (rule pulls_loop_page [OF p1 p2 p3 example43_objects example43_scan])
  also have "\<dots> = Some (ready43, Inr (append_pr ''bob'' pull_request43 Map.empty))"
    by (subst pulls_loop.simps)
       (simp add: env43_def raise_for_status_def issue_def ready43_def ready_def)
  finally show ?thesis
    by (simp add: get_prs_assigned_to_reviewers_def check_token_def ready_def)
qed

text \<open>
  Claim C3. In the mapping \<^verbatim>\<open>get_prs_assigned_to_reviewers\<close> returns, no pull request stands
  under the username of its own author: a reviewer who is the author is never added,
  however long ago the assignment was.
\<close>

theorem author_never_overdue:
  assumes "get_prs_assigned_to_reviewers e gd org repo h s = Some (s', Inr d)"
    and "d reviewer = Some prs"
  shows "\<forall>pr \<in> set prs. author_username pr \<noteq> reviewer"
proof -
  have "no_self_review d"
    by (rule get_prs_keeps [OF closed_no_self_review _ assms(1)]) (simp add: no_self_review_def)
  with assms(2) show ?thesis by (simp add: no_self_review_def)
qed

theorem author_never_overdue_witness:
  "get_prs_assigned_to_reviewers env43 spec_domain ''oppia'' ''oppia'' 1 ready =
     Some (ready43, Inr (append_pr ''bob'' pull_request43 Map.empty))
   \<and> append_pr ''bob'' pull_request43 Map.empty ''bob'' = Some [pull_request43]
   \<and> append_pr ''bob'' pull_request43 Map.empty ''alice'' = None
   \<and> ''alice'' \<in> set (map username (assignees pull_request43))
   \<and> author_username pull_request43 \<noteq> ''bob''"
proof -
  have d: "append_pr ''bob'' pull_request43 Map.empty ''bob'' = Some [pull_request43]"
    by (simp add: append_pr_def)
  from author_never_overdue [OF example43 d] example43 d show ?thesis
    by (simp add: append_pr_def pull_request43_def)
qed

text \<open>
  Claim C10. Every reviewer that is a key of the returned mapping maps to a list with at
  least one pull request: a key comes into being only with the append that follows it.
\<close>

theorem overdue_keys_have_pull_requests:
  assumes "get_prs_assigned_to_reviewers e gd org repo h s = Some (s', Inr d)"
  shows "\<forall>reviewer \<in> dom d. \<exists>pr prs. d reviewer = Some (pr # prs)"
proof -
  have "no_empty_list d"
    by (rule get_prs_keeps [OF closed_no_empty_list _ assms]) (simp add: no_empty_list_def)
  then show ?thesis
    by (auto simp: no_empty_list_def dom_def) (metis list.exhaust)
qed

theorem overdue_keys_have_pull_requests_witness:
  "get_prs_assigned_to_reviewers env43 spec_domain ''oppia'' ''oppia'' 1 ready =
     Some (ready43, Inr (append_pr ''bob'' pull_request43 Map.empty))
   \<and> dom (append_pr ''bob'' pull_request43 Map.empty) = {''bob''}
   \<and> (\<exists>pr prs. append_pr ''bob'' pull_request43 Map.empty ''bob'' = Some (pr # prs))"
proof -
  have dm: "dom (append_pr ''bob'' pull_request43 Map.empty) = {''bob''}"
    by (simp add: append_pr_def)
  from overdue_keys_have_pull_requests [OF example43] dm example43 show ?thesis
    by simp
qed






















section \<open>The stale comments\<close>

lemma digit_less_iff:
  "0 \<le> a \<Longrightarrow> a \<le> 9 \<Longrightarrow> 0 \<le> b \<Longrightarrow> b \<le> 9 \<Longrightarrow> digit a < digit b \<longleftrightarrow> a < b"
  by (auto simp: digit_def less_char_def)

lemma digit_eq_iff:
  "0 \<le> a \<Longrightarrow> a \<le> 9 \<Longrightarrow> 0 \<le> b \<Longrightarrow> b \<le> 9 \<Longrightarrow> digit a = digit b \<longleftrightarrow> a = b"
proof -
  assume "0 \<le> a" "a \<le> 9" "0 \<le> b" "b \<le> 9"
  then have "(of_char (digit a) :: nat) = of_char (digit b) \<longleftrightarrow> a = b"
    by (auto simp: digit_def)
  then show ?thesis by simp
qed

lemma tens_units:
  fixes q r :: int
  assumes "0 \<le> r" "r \<le> 9" "0 \<le> r'" "r' \<le> 9"
  shows "10 * q + r < 10 * q' + r' \<longleftrightarrow> q < q' \<or> q = q' \<and> r < r'"
    and "10 * q + r = 10 * q' + r' \<longleftrightarrow> q = q' \<and> r = r'"
proof -
  consider "q < q'" | "q = q'" | "q' < q" by linarith
  then show "10 * q + r < 10 * q' + r' \<longleftrightarrow> q < q' \<or> q = q' \<and> r < r'"
  proof cases
    case 1 with assms show ?thesis by linarith
  next
    case 2 then show ?thesis by simp
  next
    case 3 with assms show ?thesis by linarith
  qed
  consider "q < q'" | "q = q'" | "q' < q" by linarith
  then show "10 * q + r = 10 * q' + r' \<longleftrightarrow> q = q' \<and> r = r'"
  proof cases
    case 1 with assms show ?thesis by linarith
  next
    case 2 then show ?thesis by simp
  next
    case 3 with assms show ?thesis by linarith
  qed
qed

lemma less_div_mod_iff:
  fixes a b :: int
  shows "a < b \<longleftrightarrow> a div 10 < b div 10 \<or> a div 10 = b div 10 \<and> a mod 10 < b mod 10"
proof -
  have r: "0 \<le> a mod 10" "a mod 10 \<le> 9" "0 \<le> b mod 10" "b mod 10 \<le> 9" by simp_all
  have "a < b \<longleftrightarrow> 10 * (a div 10) + a mod 10 < 10 * (b div 10) + b mod 10" by simp
  also have "\<dots> \<longleftrightarrow> a div 10 < b div 10 \<or> a div 10 = b div 10 \<and> a mod 10 < b mod 10"
    by (rule tens_units(1) [OF r])
  finally show ?thesis .
qed

lemma eq_div_mod_iff:
  fixes a b :: int
  shows "a = b \<longleftrightarrow> a div 10 = b div 10 \<and> a mod 10 = b mod 10"
  by (metis mult_div_mod_eq)

lemma digit_range:
  fixes a :: int
  shows "0 \<le> a mod 10" "a mod 10 \<le> 9"
  by simp_all

lemma pad2_digits:
  assumes "0 \<le> a" "a < 100"
  shows "pad2 a = [digit (a div 10), digit (a mod 10)]" "0 \<le> a div 10" "a div 10 \<le> 9"
  using assms by (simp_all add: pad2_def)

lemma pad2_less_iff:
  assumes "0 \<le> a" "a < 100" "0 \<le> b" "b < 100"
  shows "pad2 a < pad2 b \<longleftrightarrow> a < b"
  unfolding pad2_digits(1) [OF assms(1,2)] pad2_digits(1) [OF assms(3,4)]
  by (subst less_div_mod_iff [of a b])
     (simp add: digit_less_iff digit_eq_iff digit_range pad2_digits(2,3) [OF assms(1,2)]
        pad2_digits(2,3) [OF assms(3,4)])

lemma pad2_eq_iff:
  assumes "0 \<le> a" "a < 100" "0 \<le> b" "b < 100"
  shows "pad2 a = pad2 b \<longleftrightarrow> a = b"
  unfolding pad2_digits(1) [OF assms(1,2)] pad2_digits(1) [OF assms(3,4)]
  by (subst eq_div_mod_iff [of a b])
     (simp add: digit_eq_iff digit_range pad2_digits(2,3) [OF assms(1,2)]
        pad2_digits(2,3) [OF assms(3,4)])

lemma length_pad2: "length (pad2 n) = 2"
  by (simp add: pad2_def)

lemma append_less_iff:
  "length xs = length ys \<Longrightarrow> xs @ us < ys @ vs \<longleftrightarrow> xs < ys \<or> xs = ys \<and> us < vs"
  for xs ys :: string
  by (induction xs ys rule: list_induct2) auto

lemma length_decimal_small: "n < 10 \<Longrightarrow> length (decimal n) = 1"
  by (subst decimal.simps) simp

lemma length_decimal_step: "10 \<le> n \<Longrightarrow> length (decimal n) = Suc (length (decimal (n div 10)))"
  by (subst decimal.simps) simp

lemma length_decimal_pos: "0 < length (decimal n)"
  by (cases "n < 10") (simp_all add: length_decimal_small length_decimal_step)

lemma decimal_order:
  "0 \<le> a \<Longrightarrow> 0 \<le> b \<Longrightarrow> length (decimal a) = length (decimal b) \<Longrightarrow>
     (decimal a < decimal b \<longleftrightarrow> a < b) \<and> (decimal a = decimal b \<longleftrightarrow> a = b)"
proof (induction a arbitrary: b rule: decimal.induct)
  case (1 a)
  show ?case
  proof (cases "a < 10")
    case True
    with "1.prems" have "length (decimal b) = 1" by (simp add: length_decimal_small)
    then have b: "b < 10"
      using length_decimal_pos [of "b div 10"]
      by (cases "b < 10") (simp_all add: length_decimal_step)
    have "decimal a = [digit a]" "decimal b = [digit b]"
      using True b by (simp_all add: decimal.simps [of a] decimal.simps [of b])
    with True b "1.prems" show ?thesis
      by (simp add: digit_less_iff digit_eq_iff)
  next
    case False
    then have a: "10 \<le> a" by simp
    have b: "10 \<le> b"
    proof (rule ccontr)
      assume "\<not> 10 \<le> b"
      then have "length (decimal b) = 1" by (simp add: length_decimal_small)
      with "1.prems" a length_decimal_pos [of "a div 10"] show False
        by (simp add: length_decimal_step)
    qed
    have da: "decimal a = decimal (a div 10) @ [digit (a mod 10)]"
      using a by (subst decimal.simps) simp
    have db: "decimal b = decimal (b div 10) @ [digit (b mod 10)]"
      using b by (subst decimal.simps) simp
    have len: "length (decimal (a div 10)) = length (decimal (b div 10))"
      using "1.prems" a b by (simp add: length_decimal_step)
    have nn: "0 \<le> a div 10" "0 \<le> b div 10" using a b by simp_all
    from "1.IH" [OF False nn len]
    have ih: "decimal (a div 10) < decimal (b div 10) \<longleftrightarrow> a div 10 < b div 10"
      "decimal (a div 10) = decimal (b div 10) \<longleftrightarrow> a div 10 = b div 10" by simp_all
    have "decimal a < decimal b \<longleftrightarrow> a < b"
      unfolding da db append_less_iff [OF len] ih
      by (subst less_div_mod_iff [of a b]) (simp add: digit_less_iff digit_range)
    moreover have "decimal a = decimal b \<longleftrightarrow> a = b"
      unfolding da db
      by (subst eq_div_mod_iff [of a b]) (simp add: ih digit_eq_iff digit_range)
    ultimately show ?thesis by simp
  qed
qed

lemma length_decimal_year:
  assumes "1000 \<le> n" "n \<le> 9999"
  shows "length (decimal n) = 4"
proof -
  have 1: "10 \<le> n" using assms by simp
  have 2: "10 \<le> n div 10" using assms by simp
  have 3: "10 \<le> n div 10 div 10" using assms by simp
  have 4: "n div 10 div 10 div 10 < 10" using assms by simp
  show ?thesis
    by (simp add: length_decimal_step [OF 1] length_decimal_step [OF 2]
        length_decimal_step [OF 3] length_decimal_small [OF 4])
qed

lemma days_in_month_le: "days_in_month y m \<le> 31"
  by (simp add: days_in_month_def DAYS_IN_MONTH_def)

lemma strftime_less_iff:
  assumes a: "valid_datetime a" "four_digit_year a"
    and b: "valid_datetime b" "four_digit_year b"
  shows "strftime a < strftime b \<longleftrightarrow> civil_less a b"
proof -
  have ly: "length (decimal (year a)) = length (decimal (year b))"
    using a b by (simp add: valid_datetime_def four_digit_year_def length_decimal_year)
  have y: "decimal (year a) < decimal (year b) \<longleftrightarrow> year a < year b"
    "decimal (year a) = decimal (year b) \<longleftrightarrow> year a = year b"
    using decimal_order [OF _ _ ly] a b by (simp_all add: four_digit_year_def)
  have da: "day a < 100" using a days_in_month_le [of "year a" "month a"]
    by (simp add: valid_datetime_def)
  have db: "day b < 100" using b days_in_month_le [of "year b" "month b"]
    by (simp add: valid_datetime_def)
  have ra: "0 \<le> month a" "month a < 100" "0 \<le> day a" "0 \<le> hour a" "hour a < 100"
    "0 \<le> minute a" "minute a < 100" "0 \<le> second a" "second a < 100"
    using a by (simp_all add: valid_datetime_def)
  have rb: "0 \<le> month b" "month b < 100" "0 \<le> day b" "0 \<le> hour b" "hour b < 100"
    "0 \<le> minute b" "minute b < 100" "0 \<le> second b" "second b < 100"
    using b by (simp_all add: valid_datetime_def)
  have l2: "length (pad2 m) = length (pad2 n)" for m n by (simp add: length_pad2)
  show ?thesis
    unfolding strftime_def civil_less_def
    by (simp add: append_less_iff [OF ly] append_less_iff [OF l2] y
        pad2_less_iff pad2_eq_iff ra rb da db)
qed

lemma div_step:
  fixes y k :: int
  assumes "0 < k"
  shows "y div k = (y - 1) div k + (if y mod k = 0 then 1 else 0)"
proof (cases "y mod k = 0")
  case True
  have "y = k * (y div k) + y mod k" by simp
  with True have "y - 1 = k * (y div k - 1) + (k - 1)" by (simp add: algebra_simps)
  from int_div_pos_eq [OF this] assms have "(y - 1) div k = y div k - 1" by simp
  with True show ?thesis by simp
next
  case False
  have m: "0 \<le> y mod k" "y mod k < k" using assms by simp_all
  with False have r: "0 \<le> y mod k - 1" "y mod k - 1 < k" by simp_all
  have "y = k * (y div k) + y mod k" by simp
  then have "y - 1 = k * (y div k) + (y mod k - 1)" by simp
  from int_div_pos_eq [OF this r] False show ?thesis by simp
qed

lemma leap_mods:
  fixes y :: int
  shows "y mod 100 = 0 \<Longrightarrow> y mod 4 = 0" "y mod 400 = 0 \<Longrightarrow> y mod 100 = 0"
proof -
  have "y mod 100 mod 4 = y mod 4" by (rule mod_mod_cancel) simp
  then show "y mod 100 = 0 \<Longrightarrow> y mod 4 = 0" by simp
  have "y mod 400 mod 100 = y mod 100" by (rule mod_mod_cancel) simp
  then show "y mod 400 = 0 \<Longrightarrow> y mod 100 = 0" by simp
qed

lemma days_before_year_succ:
  "days_before_year (y + 1) = days_before_year y + year_length y"
proof -
  have d: "y div 4 = (y - 1) div 4 + (if y mod 4 = 0 then 1 else 0)"
    "y div 100 = (y - 1) div 100 + (if y mod 100 = 0 then 1 else 0)"
    "y div 400 = (y - 1) div 400 + (if y mod 400 = 0 then 1 else 0)"
    by (rule div_step, simp)+
  have "days_before_year (y + 1) = y * 365 + y div 4 - y div 100 + y div 400"
    by (simp add: days_before_year_def)
  also have "\<dots> = days_before_year y + 365 + (if y mod 4 = 0 then 1 else 0)
      - (if y mod 100 = 0 then 1 else 0) + (if y mod 400 = 0 then 1 else 0)"
    unfolding d days_before_year_def by (simp add: algebra_simps)
  also have "\<dots> = days_before_year y + year_length y"
    using leap_mods [of y]
    by (cases "y mod 4 = 0"; cases "y mod 100 = 0"; cases "y mod 400 = 0")
       (simp_all add: year_length_def is_leap_def)
  finally show ?thesis .
qed

lemma year_length_pos: "0 < year_length y"
  by (simp add: year_length_def)

lemma days_before_year_mono:
  assumes "y \<le> y'"
  shows "days_before_year y \<le> days_before_year y'"
  using assms
proof (induction y' rule: int_ge_induct)
  case base
  show ?case by simp
next
  case (step i)
  with year_length_pos [of i] show ?case by (simp add: days_before_year_succ)
qed

lemma month_cases:
  fixes m :: int
  assumes "1 \<le> m" "m \<le> 12"
  shows "m = 1 \<or> m = 2 \<or> m = 3 \<or> m = 4 \<or> m = 5 \<or> m = 6 \<or> m = 7 \<or> m = 8 \<or> m = 9
     \<or> m = 10 \<or> m = 11 \<or> m = 12"
  using assms by presburger

lemma days_before_month_step:
  assumes "1 \<le> m" "m \<le> 11"
  shows "days_before_month y (m + 1) = days_before_month y m + days_in_month y m"
proof -
  from assms have "m = 1 \<or> m = 2 \<or> m = 3 \<or> m = 4 \<or> m = 5 \<or> m = 6 \<or> m = 7 \<or> m = 8 \<or> m = 9
     \<or> m = 10 \<or> m = 11" by presburger
  then show ?thesis
    by (elim disjE)
       (simp_all add: days_before_month_def days_in_month_def DAYS_BEFORE_MONTH_def
          DAYS_IN_MONTH_def)
qed

lemma days_in_month_pos: "0 < days_in_month y m"
  by (simp add: days_in_month_def DAYS_IN_MONTH_def)

lemma days_before_month_mono:
  assumes "1 \<le> m" "m \<le> m'" "m' \<le> 12"
  shows "days_before_month y m \<le> days_before_month y m'"
  using assms(2,1,3)
proof (induction m' rule: int_ge_induct)
  case base
  show ?case by simp
next
  case (step i)
  then have "days_before_month y (i + 1) = days_before_month y i + days_in_month y i"
    by (intro days_before_month_step) simp_all
  with step days_in_month_pos [of y i] show ?case by simp
qed

lemma days_before_month_next:
  assumes "1 \<le> m" "m < m'" "m' \<le> 12"
  shows "days_before_month y m + days_in_month y m \<le> days_before_month y m'"
proof -
  have "days_before_month y (m + 1) = days_before_month y m + days_in_month y m"
    using assms by (intro days_before_month_step) simp_all
  moreover have "days_before_month y (m + 1) \<le> days_before_month y m'"
    using assms by (intro days_before_month_mono) simp_all
  ultimately show ?thesis by simp
qed

lemma day_of_year_le:
  assumes "1 \<le> m" "m \<le> 12" "d \<le> days_in_month y m"
  shows "days_before_month y m + d \<le> year_length y"
proof -
  have "days_before_month y 12 + days_in_month y 12 = year_length y"
    by (simp add: days_before_month_def days_in_month_def DAYS_BEFORE_MONTH_def
        DAYS_IN_MONTH_def year_length_def)
  moreover have "days_before_month y m + days_in_month y m \<le> days_before_month y 12 + days_in_month y 12"
  proof (cases "m = 12")
    case True then show ?thesis by simp
  next
    case False
    with assms have "days_before_month y m + days_in_month y m \<le> days_before_month y 12"
      by (intro days_before_month_next) simp_all
    with days_in_month_pos [of y 12] show ?thesis by simp
  qed
  ultimately show ?thesis using assms(3) by simp
qed

lemma days_before_month_nonneg: "0 \<le> days_before_month y m"
  by (simp add: days_before_month_def DAYS_BEFORE_MONTH_def)

lemma ymd2ord_less:
  assumes va: "1 \<le> ma" "ma \<le> 12" "1 \<le> da" "da \<le> days_in_month ya ma"
    and vb: "1 \<le> mb" "mb \<le> 12" "1 \<le> db" "db \<le> days_in_month yb mb"
    and less: "ya < yb \<or> ya = yb \<and> (ma < mb \<or> ma = mb \<and> da < db)"
  shows "ymd2ord ya ma da < ymd2ord yb mb db"
proof -
  consider "ya < yb" | "ya = yb" "ma < mb" | "ya = yb" "ma = mb" "da < db"
    using less by blast
  then show ?thesis
  proof cases
    case 1
    have "days_before_month ya ma + da \<le> year_length ya"
      by (rule day_of_year_le [OF va(1,2,4)])
    then have "ymd2ord ya ma da \<le> days_before_year (ya + 1)"
      by (simp add: ymd2ord_def days_before_year_succ)
    also have "\<dots> \<le> days_before_year yb"
      using 1 by (intro days_before_year_mono) simp
    also have "\<dots> < ymd2ord yb mb db"
      using days_before_month_nonneg [of yb mb] vb(3) by (simp add: ymd2ord_def)
    finally show ?thesis .
  next
    case 2
    have "days_before_month ya ma + da \<le> days_before_month ya ma + days_in_month ya ma"
      using va(4) by simp
    also have "\<dots> \<le> days_before_month ya mb"
      by (rule days_before_month_next [OF va(1) 2(2) vb(2)])
    also have "\<dots> < days_before_month ya mb + db" using vb(3) by simp
    finally show ?thesis using 2(1) by (simp add: ymd2ord_def)
  next
    case 3
    then show ?thesis by (simp add: ymd2ord_def)
  qed
qed

lemma time_of_day_less:
  fixes ha mia sa hb mib sb :: int
  assumes "0 \<le> mia" "mia < 60" "0 \<le> sa" "sa < 60" "0 \<le> mib" "mib < 60" "0 \<le> sb" "sb < 60"
    and "ha < hb \<or> ha = hb \<and> (mia < mib \<or> mia = mib \<and> sa < sb)"
  shows "ha * 3600 + mia * 60 + sa < hb * 3600 + mib * 60 + sb"
proof -
  consider "ha < hb" | "ha = hb" "mia < mib" | "ha = hb" "mia = mib" "sa < sb"
    using assms(9) by blast
  then show ?thesis
  proof cases
    case 1 with assms(1-8) show ?thesis by linarith
  next
    case 2 with assms(1-8) show ?thesis by linarith
  next
    case 3 then show ?thesis by simp
  qed
qed

lemma time_of_day_range:
  assumes "valid_datetime t"
  shows "0 \<le> hour t * 3600 + minute t * 60 + second t"
    "hour t * 3600 + minute t * 60 + second t < 86400"
  using assms by (simp_all add: valid_datetime_def)

lemma civil_less_to_seconds:
  assumes a: "valid_datetime a" and b: "valid_datetime b" and less: "civil_less a b"
  shows "to_seconds a < to_seconds b"
proof -
  let ?ta = "hour a * 3600 + minute a * 60 + second a"
  let ?tb = "hour b * 3600 + minute b * 60 + second b"
  let ?oa = "ymd2ord (year a) (month a) (day a)"
  let ?ob = "ymd2ord (year b) (month b) (day b)"
  have sa: "to_seconds a = ?oa * 86400 + ?ta" and sb: "to_seconds b = ?ob * 86400 + ?tb"
    by (simp_all add: to_seconds_def)
  have va: "1 \<le> month a" "month a \<le> 12" "1 \<le> day a" "day a \<le> days_in_month (year a) (month a)"
    using a by (simp_all add: valid_datetime_def)
  have vb: "1 \<le> month b" "month b \<le> 12" "1 \<le> day b" "day b \<le> days_in_month (year b) (month b)"
    using b by (simp_all add: valid_datetime_def)
  have ra: "0 \<le> minute a" "minute a < 60" "0 \<le> second a" "second a < 60"
    using a by (simp_all add: valid_datetime_def)
  have rb: "0 \<le> minute b" "minute b < 60" "0 \<le> second b" "second b < 60"
    using b by (simp_all add: valid_datetime_def)
  consider (date) "year a < year b \<or> year a = year b \<and>
        (month a < month b \<or> month a = month b \<and> day a < day b)"
    | (time) "year a = year b" "month a = month b" "day a = day b"
        "hour a < hour b \<or> hour a = hour b \<and>
          (minute a < minute b \<or> minute a = minute b \<and> second a < second b)"
    using less unfolding civil_less_def by blast
  then show ?thesis
  proof cases
    case date
    from ymd2ord_less [OF va vb date] have "?oa + 1 \<le> ?ob" by simp
    with time_of_day_range [OF a] time_of_day_range [OF b] show ?thesis
      unfolding sa sb by linarith
  next
    case time
    from time_of_day_less [OF ra rb time(4)] time(1-3) show ?thesis
      unfolding sa sb by simp
  qed
qed

lemma civil_trichotomy:
  "civil_less a b \<or> civil_less b a \<or>
     (year a = year b \<and> month a = month b \<and> day a = day b \<and> hour a = hour b
        \<and> minute a = minute b \<and> second a = second b)"
  unfolding civil_less_def by linarith

lemma to_seconds_less_iff:
  assumes a: "valid_datetime a" and b: "valid_datetime b"
  shows "to_seconds a < to_seconds b \<longleftrightarrow> civil_less a b"
proof
  assume l: "to_seconds a < to_seconds b"
  from civil_trichotomy [of a b] show "civil_less a b"
  proof (elim disjE)
    assume "civil_less b a"
    from civil_less_to_seconds [OF b a this] l show ?thesis by simp
  next
    assume "year a = year b \<and> month a = month b \<and> day a = day b \<and> hour a = hour b
        \<and> minute a = minute b \<and> second a = second b"
    then have "to_seconds a = to_seconds b" by (simp add: to_seconds_def)
    with l show ?thesis by simp
  qed
next
  assume "civil_less a b"
  then show "to_seconds a < to_seconds b" by (rule civil_less_to_seconds [OF a b])
qed

lemma strftime_order:
  assumes "valid_datetime a" "four_digit_year a" "valid_datetime b" "four_digit_year b"
  shows "strftime a < strftime b \<longleftrightarrow> to_seconds a < to_seconds b"
  by (simp add: strftime_less_iff [OF assms] to_seconds_less_iff [OF assms(1,3)])

lemma digit_chars:
  "digit 0 = CHR ''0''" "digit 1 = CHR ''1''" "digit 2 = CHR ''2''" "digit 3 = CHR ''3''"
  "digit 4 = CHR ''4''" "digit 5 = CHR ''5''" "digit 6 = CHR ''6''" "digit 7 = CHR ''7''"
  "digit 8 = CHR ''8''" "digit 9 = CHR ''9''"
  by code_simp+

lemma old_comment_ids_loop_takeWhile:
  "old_comment_ids_loop cutoff cs comment_ids =
     comment_ids @ map comment_id (takeWhile (\<lambda>c. createdAt c < cutoff) cs)"
  by (induction cs arbitrary: comment_ids) simp_all

lemma reference_old_comment_ids_takeWhile:
  "reference_old_comment_ids cutoff cs comment_ids =
     comment_ids @ map fst (takeWhile (\<lambda>c. earlier (snd c) cutoff) cs)"
  by (induction cs arbitrary: comment_ids) simp_all

lemma rendered_takeWhile:
  assumes "valid_datetime cutoff" "four_digit_year cutoff"
  shows "\<forall>c \<in> set cs. valid_datetime (snd c) \<and> four_digit_year (snd c) \<Longrightarrow>
     map comment_id (takeWhile (\<lambda>c. createdAt c < strftime cutoff) (map rendered cs))
       = map fst (takeWhile (\<lambda>c. earlier (snd c) cutoff) cs)"
proof (induction cs)
  case Nil
  show ?case by simp
next
  case (Cons c cs)
  then have c: "valid_datetime (snd c)" "four_digit_year (snd c)" by simp_all
  have "createdAt (rendered c) < strftime cutoff \<longleftrightarrow> earlier (snd c) cutoff"
    by (simp add: rendered_def earlier_def strftime_order [OF c assms])
  with Cons show ?case by (simp add: rendered_def)
qed

lemma get_old_comment_ids_run:
  assumes "comments e org repo n = Response status (Payload cs)"
    and "raise_for_status status = Inr ()"
    and "datetime_minus (clock e (clock_reads s)) retention = Inr past"
  shows "get_old_comment_ids e org repo n s =
     ((issue (PostComments org repo n) s)\<lparr>clock_reads := Suc (clock_reads s)\<rparr>,
      Inr (map comment_id (takeWhile (\<lambda>c. createdAt c < strftime past) cs)))"
  using assms
  by (simp add: get_old_comment_ids_def get_past_time_def now_def issue_def timedelta_days_def
      DELETE_COMMENTS_BEFORE_IN_DAYS_def retention_def old_comment_ids_loop_takeWhile)

lemma valid_utc:
  "valid_datetime (utc y mo d h mi sec) \<longleftrightarrow>
     1 \<le> y \<and> y \<le> 9999 \<and> 1 \<le> mo \<and> mo \<le> 12 \<and> 1 \<le> d \<and> d \<le> days_in_month y mo \<and>
     0 \<le> h \<and> h < 24 \<and> 0 \<le> mi \<and> mi < 60 \<and> 0 \<le> sec \<and> sec < 60"
  by (simp add: valid_datetime_def utc_def)

lemma to_seconds_utc:
  "to_seconds (utc y mo d h mi sec) = ymd2ord y mo d * 86400 + h * 3600 + mi * 60 + sec"
  by (simp add: to_seconds_def utc_def)

lemmas calendar_defs =
  ymd2ord_def days_before_year_def days_before_month_def DAYS_BEFORE_MONTH_def
  days_in_month_def DAYS_IN_MONTH_def is_leap_def

lemma year_utc: "year (utc y mo d h mi sec) = y"
  by (simp add: utc_def)

lemma past60:
  "datetime_minus (utc 2023 5 1 13 0 0) retention = Inr (utc 2023 3 2 13 0 0)"
proof -
  have "ord2ymd 738581 = (2023, 3, 2)"
    by (simp add: ord2ymd_def Let_def DAYS_BEFORE_MONTH_def DAYS_IN_MONTH_def)
  then show ?thesis
    by (simp add: datetime_minus_def to_microseconds_utc retention_def
        DELETE_COMMENTS_BEFORE_IN_DAYS_def) (simp add: utc_def)
qed

text \<open>
  Claim C9. The age test of \<^verbatim>\<open>_get_old_comment_ids\<close> compares the strings. For valid
  datetimes with a year of four digits, the string of one is smaller than the string of the
  other exactly when its instant, in whole seconds, is earlier; so on comments rendered from
  such datetimes the loop on strings returns what the reference filter on the datetimes
  returns.
\<close>

theorem string_order_is_chronological:
  assumes "valid_datetime a" "four_digit_year a"
    and "valid_datetime cutoff" "four_digit_year cutoff"
    and "\<forall>c \<in> set cs. valid_datetime (snd c) \<and> four_digit_year (snd c)"
  shows "(strftime a < strftime cutoff \<longleftrightarrow> earlier a cutoff)
     \<and> old_comment_ids_loop (strftime cutoff) (map rendered cs) comment_ids
         = reference_old_comment_ids cutoff cs comment_ids"
  by (simp add: strftime_order [OF assms(1-4)] earlier_def old_comment_ids_loop_takeWhile
      reference_old_comment_ids_takeWhile rendered_takeWhile [OF assms(3-5)])

theorem string_order_is_chronological_witness:
  "strftime (utc 2022 12 31 23 59 59) < strftime (utc 2023 3 2 13 0 0)
   \<and> old_comment_ids_loop (strftime (utc 2023 3 2 13 0 0)) (map rendered comments60) []
       = [''c1'', ''c2'']"
proof -
  have a: "valid_datetime (utc 2022 12 31 23 59 59)" "four_digit_year (utc 2022 12 31 23 59 59)"
    by (simp_all add: valid_utc four_digit_year_def year_utc calendar_defs)
  have c: "valid_datetime (utc 2023 3 2 13 0 0)" "four_digit_year (utc 2023 3 2 13 0 0)"
    by (simp_all add: valid_utc four_digit_year_def year_utc calendar_defs)
  have cs: "\<forall>c \<in> set comments60. valid_datetime (snd c) \<and> four_digit_year (snd c)"
    by (simp add: comments60_def valid_utc four_digit_year_def year_utc calendar_defs)
  from string_order_is_chronological [OF a c cs, of "[]"] show ?thesis
    by (simp add: earlier_def comments60_def to_seconds_utc calendar_defs)
qed

text \<open>
  The restriction to four digits is needed: \<^verbatim>\<open>%Y\<close> prints the year 999 in three digits, and
  the last second of 999 is rendered as a string greater than the first second of 1000, so
  a comment created after the cutoff is selected while the reference filter selects none.
\<close>

theorem string_order_fails_below_year_1000:
  "valid_datetime (utc 999 12 31 23 59 59) \<and> valid_datetime (utc 1000 1 1 0 0 0)
   \<and> strftime (utc 999 12 31 23 59 59) = ''999-12-31T23:59:59Z''
   \<and> strftime (utc 1000 1 1 0 0 0) = ''1000-01-01T00:00:00Z''
   \<and> earlier (utc 999 12 31 23 59 59) (utc 1000 1 1 0 0 0)
   \<and> strftime (utc 1000 1 1 0 0 0) < strftime (utc 999 12 31 23 59 59)
   \<and> old_comment_ids_loop (strftime (utc 999 12 31 23 59 59))
        (map rendered [(''c1'', utc 1000 1 1 0 0 0)]) [] = [''c1'']
   \<and> reference_old_comment_ids (utc 999 12 31 23 59 59) [(''c1'', utc 1000 1 1 0 0 0)] [] = []"
proof -
  have s: "strftime (utc 999 12 31 23 59 59) = ''999-12-31T23:59:59Z''"
    "strftime (utc 1000 1 1 0 0 0) = ''1000-01-01T00:00:00Z''"
    by (simp_all add: strftime_def utc_def decimal.simps pad2_def digit_chars)
  have l: "''1000-01-01T00:00:00Z'' < ''999-12-31T23:59:59Z''"
    by (simp add: less_char_def)
  have e: "earlier (utc 999 12 31 23 59 59) (utc 1000 1 1 0 0 0)"
    "\<not> earlier (utc 1000 1 1 0 0 0) (utc 999 12 31 23 59 59)"
    by (simp_all add: earlier_def to_seconds_utc calendar_defs)
  have v: "valid_datetime (utc 999 12 31 23 59 59)" "valid_datetime (utc 1000 1 1 0 0 0)"
    by (simp_all add: valid_utc calendar_defs)
  show ?thesis
    using l e v by (simp add: s rendered_def)
qed

text \<open>
  Claim C5. When the comments are fetched and the cutoff, the clock reading minus the
  retention period of 60 days, is in range, \<^verbatim>\<open>_get_old_comment_ids\<close> returns the ids of the
  longest prefix of the fetched comments whose \<^verbatim>\<open>createdAt\<close> string is smaller than the
  string of the cutoff, and stops there: a later comment is left out even if it would
  qualify. For comments and a cutoff that are valid datetimes with a year of four digits
  this is the longest prefix of the comments created, in whole seconds, before the cutoff.
\<close>

theorem stale_comments_longest_prefix:
  assumes "comments e org repo n = Response status (Payload cs)"
    and "raise_for_status status = Inr ()"
    and "datetime_minus (clock e (clock_reads s)) retention = Inr past"
  shows "get_old_comment_ids e org repo n s =
       ((issue (PostComments org repo n) s)\<lparr>clock_reads := Suc (clock_reads s)\<rparr>,
        Inr (map comment_id (takeWhile (\<lambda>c. createdAt c < strftime past) cs)))
     \<and> (valid_datetime past \<and> four_digit_year past \<and> cs = map rendered ts
          \<and> (\<forall>t \<in> set ts. valid_datetime (snd t) \<and> four_digit_year (snd t))
        \<longrightarrow> get_old_comment_ids e org repo n s =
             ((issue (PostComments org repo n) s)\<lparr>clock_reads := Suc (clock_reads s)\<rparr>,
              Inr (map fst (takeWhile (\<lambda>t. earlier (snd t) past) ts))))"
  using rendered_takeWhile [of past ts]
  by (simp add: get_old_comment_ids_run [OF assms])

theorem stale_comments_longest_prefix_witness:
  "get_old_comment_ids env60 ''oppia'' ''oppia'' 7 ready =
     (ready\<lparr>calls := [PostComments ''oppia'' ''oppia'' 7], clock_reads := 1\<rparr>,
      Inr [''c1'', ''c2''])
   \<and> comments60 ! 3 = (''c4'', utc 2023 2 10 8 0 0)
   \<and> earlier (utc 2023 2 10 8 0 0) (utc 2023 3 2 13 0 0)"
proof -
  have r: "comments env60 ''oppia'' ''oppia'' 7 = Response 200 (Payload (map rendered comments60))"
    "raise_for_status 200 = Inr ()"
    by (simp_all add: env60_def raise_for_status_def)
  have p: "datetime_minus (clock env60 (clock_reads ready)) retention = Inr (utc 2023 3 2 13 0 0)"
    by (simp add: env60_def quiet_env_def past60)
  have c: "valid_datetime (utc 2023 3 2 13 0 0)" "four_digit_year (utc 2023 3 2 13 0 0)"
    by (simp_all add: valid_utc four_digit_year_def year_utc calendar_defs)
  have cs: "\<forall>c \<in> set comments60. valid_datetime (snd c) \<and> four_digit_year (snd c)"
    by (simp add: comments60_def valid_utc four_digit_year_def year_utc calendar_defs)
  from stale_comments_longest_prefix [OF r p, of comments60] c cs
  have "get_old_comment_ids env60 ''oppia'' ''oppia'' 7 ready =
      ((issue (PostComments ''oppia'' ''oppia'' 7) ready)\<lparr>clock_reads := Suc (clock_reads ready)\<rparr>,
       Inr (map fst (takeWhile (\<lambda>t. earlier (snd t) (utc 2023 3 2 13 0 0)) comments60)))"
    by blast
  then show ?thesis
    by (simp add: earlier_def comments60_def to_seconds_utc calendar_defs issue_def ready_def)
qed

text \<open>
  The seconds are whole because the cutoff is compared as it is formatted: when the clock
  reads half a second past 13:00:00, a comment created at 13:00:00 sixty days earlier is
  strictly before the clock reading minus the retention period, and is not selected.
\<close>

theorem stale_comment_in_the_second_of_the_cutoff:
  "get_old_comment_ids env_half_second ''oppia'' ''oppia'' 7 ready =
     (ready\<lparr>calls := [PostComments ''oppia'' ''oppia'' 7], clock_reads := 1\<rparr>, Inr [])
   \<and> comments env_half_second ''oppia'' ''oppia'' 7 =
       Response 200 (Payload [\<lparr>comment_id = ''c1'', createdAt = ''2023-03-02T13:00:00Z''\<rparr>])
   \<and> strftime (utc 2023 3 2 13 0 0) = ''2023-03-02T13:00:00Z''
   \<and> to_microseconds (utc 2023 3 2 13 0 0)
       < to_microseconds (clock env_half_second 0) - retention"
proof -
  let ?now = "(utc 2023 5 1 13 0 0)\<lparr>microsecond := 500000\<rparr>"
  let ?past = "(utc 2023 3 2 13 0 0)\<lparr>microsecond := 500000\<rparr>"
  have us: "to_microseconds ?now = to_microseconds (utc 2023 5 1 13 0 0) + 500000"
    by (simp add: to_microseconds_def to_seconds_def utc_def)
  have "ord2ymd 738581 = (2023, 3, 2)"
    by (simp add: ord2ymd_def Let_def DAYS_BEFORE_MONTH_def DAYS_IN_MONTH_def)
  then have p: "datetime_minus (clock env_half_second (clock_reads ready)) retention = Inr ?past"
    by (simp add: env_half_second_def quiet_env_def datetime_minus_def us to_microseconds_utc
        retention_def DELETE_COMMENTS_BEFORE_IN_DAYS_def) (simp add: utc_def)
  have r: "comments env_half_second ''oppia'' ''oppia'' 7 =
       Response 200 (Payload [\<lparr>comment_id = ''c1'', createdAt = ''2023-03-02T13:00:00Z''\<rparr>])"
    "raise_for_status 200 = Inr ()"
    by (simp_all add: env_half_second_def raise_for_status_def)
  have s: "strftime ?past = ''2023-03-02T13:00:00Z''"
    "strftime (utc 2023 3 2 13 0 0) = ''2023-03-02T13:00:00Z''"
    by (simp_all add: strftime_def utc_def decimal.simps pad2_def digit_chars)
  have lt: "to_microseconds (utc 2023 3 2 13 0 0)
       < to_microseconds (clock env_half_second 0) - retention"
    by (simp add: env_half_second_def quiet_env_def us to_microseconds_utc retention_def
        DELETE_COMMENTS_BEFORE_IN_DAYS_def)
       (simp add: to_microseconds_def to_seconds_utc calendar_defs, simp add: utc_def)
  have "get_old_comment_ids env_half_second ''oppia'' ''oppia'' 7 ready =
     (ready\<lparr>calls := [PostComments ''oppia'' ''oppia'' 7], clock_reads := 1\<rparr>, Inr [])"
    unfolding get_old_comment_ids_run [OF r p] by (simp add: s issue_def ready_def)
  with lt r(1) s(2) show ?thesis by simp
qed

end
